theory Spec2Isabelle
  imports Main
begin

section \<open>The 2048 board engine of components/2048-game.tsx\<close>

text \<open>
  Tile values are JavaScript numbers that the game only ever doubles, starting from 2 and
  4; they are modelled as unbounded integers. A board is an array of rows. Reading an
  array past its end gives \<open>undefined\<close> in JavaScript, which is written here as
  \<open>None\<close>.
\<close>

type_synonym Board = "int list list"

definition BOARD_SIZE :: nat where
  "BOARD_SIZE = 4"

definition TILE_VALUES :: "int list" where
  "TILE_VALUES = [2, 4]"

text \<open>
  The ways a call can leave the world of integer boards. \<open>TypeError\<close> is the exception
  the runtime throws when a property of \<open>undefined\<close> is read or \<open>undefined\<close> is
  destructured. \<open>NaN_value\<close> and \<open>Undefined_cell\<close> are no exceptions: they mark the
  point where a board computed on the way holds NaN (\<open>undefined * 2\<close> in \<open>merge\<close>) or
  \<open>undefined\<close> (a missing cell read by \<open>transpose\<close>). The JavaScript call goes on
  with such a board, and \<open>moveUp\<close> and \<open>moveDown\<close> can even end with a board of
  integers again; the model stops at that point and says nothing about what the call
  returns. On boards of four rows of four cells neither arises. \<open>InvalidDirection\<close> and
  \<open>InvalidBoard\<close> are the two error names of the specification; no function below
  produces them.
\<close>

datatype failure = TypeError | NaN_value | Undefined_cell | InvalidDirection | InvalidBoard

definition idx :: "'a list \<Rightarrow> nat \<Rightarrow> 'a option" where
  "idx xs i = (if i < length xs then Some (xs ! i) else None)"

record scored =
  scoreDelta :: int

record merge_result = scored +
  mergedRow :: "int list"

record move_result = scored +
  newBoard :: Board

subsection \<open>createEmptyBoard\<close>

definition createEmptyBoard :: Board where
  "createEmptyBoard = replicate BOARD_SIZE (replicate BOARD_SIZE 0)"

subsection \<open>compress\<close>

text \<open>The \<open>while\<close> loop that pushes zeros until the row has \<open>BOARD_SIZE\<close> entries.\<close>

function compress_pad :: "int list \<Rightarrow> int list" where
  "compress_pad newRow =
     (if length newRow < BOARD_SIZE then compress_pad (newRow @ [0]) else newRow)"
  by pat_completeness auto
termination
  by (relation "measure (\<lambda>newRow. BOARD_SIZE - length newRow)") auto

declare compress_pad.simps [simp del]

definition compress :: "int list \<Rightarrow> int list" where
  "compress row = compress_pad (filter (\<lambda>v. v \<noteq> 0) row)"

subsection \<open>merge\<close>

text \<open>
  The \<open>for\<close> loop of \<open>merge\<close>, with the loop index, the copied row and the running
  score as arguments. The test \<open>newRow[i] !== 0 && newRow[i] === newRow[i + 1]\<close> also
  succeeds when both reads are past the end of the row; then \<open>newRow[i] *= 2\<close> stores NaN.
\<close>

function merge_loop :: "nat \<Rightarrow> int list \<Rightarrow> int \<Rightarrow> failure + (int list \<times> int)" where
  "merge_loop i newRow sd =
     (if i < BOARD_SIZE - 1 then
        (if idx newRow i \<noteq> Some 0 \<and> idx newRow i = idx newRow (i + 1) then
           (case idx newRow i of
              None \<Rightarrow> Inl NaN_value
            | Some v \<Rightarrow> merge_loop (i + 1) (newRow[i := v * 2, i + 1 := 0]) (sd + v * 2))
         else merge_loop (i + 1) newRow sd)
      else Inr (newRow, sd))"
  by pat_completeness auto
termination
  by (relation "measure (\<lambda>(i, newRow, sd). BOARD_SIZE - 1 - i)") auto

declare merge_loop.simps [simp del]

definition merge :: "int list \<Rightarrow> failure + merge_result" where
  "merge row =
     (case merge_loop 0 row 0 of
        Inl e \<Rightarrow> Inl e
      | Inr (newRow, sd) \<Rightarrow> Inr \<lparr>scoreDelta = sd, mergedRow = compress newRow\<rparr>)"

subsection \<open>transpose and reverse\<close>

text \<open>
  \<open>board[0].map((_, i) => board.map(row => row[i]))\<close>: on the empty board \<open>board[0]\<close> is
  \<open>undefined\<close> and the call throws; a row shorter than the first one puts \<open>undefined\<close>
  into the result.
\<close>

definition transpose_board :: "Board \<Rightarrow> failure + Board" where
  "transpose_board board =
     (case board of
        [] \<Rightarrow> Inl TypeError
      | row0 # _ \<Rightarrow>
          (if list_all (\<lambda>row. length row0 \<le> length row) board
           then Inr (map (\<lambda>i. map (\<lambda>row. row ! i) board) [0..<length row0])
           else Inl Undefined_cell))"

definition reverse :: "Board \<Rightarrow> Board" where
  "reverse board = map rev board"

subsection \<open>The four moves\<close>

text \<open>
  The callback of \<open>board.map\<close> in \<open>moveLeft\<close> adds to \<open>scoreDelta\<close> as it goes through
  the rows; the running score is the second argument.
\<close>

fun moveLeft_rows :: "Board \<Rightarrow> int \<Rightarrow> failure + (Board \<times> int)" where
  "moveLeft_rows [] sd = Inr ([], sd)"
| "moveLeft_rows (row # rest) sd =
     (case merge (compress row) of
        Inl e \<Rightarrow> Inl e
      | Inr m \<Rightarrow>
          (case moveLeft_rows rest (sd + scoreDelta m) of
             Inl e \<Rightarrow> Inl e
           | Inr (rows, sd') \<Rightarrow> Inr (mergedRow m # rows, sd')))"

definition moveLeft :: "Board \<Rightarrow> failure + move_result" where
  "moveLeft board =
     (case moveLeft_rows board 0 of
        Inl e \<Rightarrow> Inl e
      | Inr (rows, sd) \<Rightarrow> Inr \<lparr>scoreDelta = sd, newBoard = rows\<rparr>)"

definition moveRight :: "Board \<Rightarrow> failure + move_result" where
  "moveRight board =
     (case moveLeft (reverse board) of
        Inl e \<Rightarrow> Inl e
      | Inr res \<Rightarrow> Inr \<lparr>scoreDelta = scoreDelta res, newBoard = reverse (newBoard res)\<rparr>)"

definition moveUp :: "Board \<Rightarrow> failure + move_result" where
  "moveUp board =
     (case transpose_board board of
        Inl e \<Rightarrow> Inl e
      | Inr transposed \<Rightarrow>
          (case moveLeft transposed of
             Inl e \<Rightarrow> Inl e
           | Inr res \<Rightarrow>
               (case transpose_board (newBoard res) of
                  Inl e \<Rightarrow> Inl e
                | Inr back \<Rightarrow> Inr \<lparr>scoreDelta = scoreDelta res, newBoard = back\<rparr>)))"

definition moveDown :: "Board \<Rightarrow> failure + move_result" where
  "moveDown board =
     (case transpose_board board of
        Inl e \<Rightarrow> Inl e
      | Inr transposed \<Rightarrow>
          (case moveRight transposed of
             Inl e \<Rightarrow> Inl e
           | Inr res \<Rightarrow>
               (case transpose_board (newBoard res) of
                  Inl e \<Rightarrow> Inl e
                | Inr back \<Rightarrow> Inr \<lparr>scoreDelta = scoreDelta res, newBoard = back\<rparr>)))"

text \<open>
  \<open>moveUp\<close> and \<open>moveDown\<close> above end with \<open>Undefined_cell\<close> as soon as a
  transposition reads a missing cell, which happens on ragged boards only.
\<close>

text \<open>
  The parameter \<open>direction\<close> of \<open>handleMove\<close> has the type
  \<open>"up" | "down" | "left" | "right"\<close>. The type is erased at run time, where the value is
  a string; \<open>Direction\<close> is the set of the four strings the type admits.
\<close>

definition Direction :: "string set" where
  "Direction = {''up'', ''down'', ''left'', ''right''}"

text \<open>
  The move resolution inside \<open>handleMove\<close>: its \<open>switch\<close> (source lines 116 to 129)
  and the destructuring after it (line 130). The \<open>switch\<close> has no default case, so a
  string outside \<open>Direction\<close> leaves \<open>result\<close> undefined and
  \<open>const { newBoard, scoreDelta } = result\<close> throws. The guard \<open>if (gameOver) return\<close>
  before the \<open>switch\<close> belongs to \<open>handleMove\<close> below.
\<close>

definition resolve :: "Board \<Rightarrow> string \<Rightarrow> failure + move_result" where
  "resolve board direction =
     (if direction = ''up'' then moveUp board
      else if direction = ''down'' then moveDown board
      else if direction = ''left'' then moveLeft board
      else if direction = ''right'' then moveRight board
      else Inl TypeError)"

subsection \<open>hasMoves\<close>

text \<open>
  The two nested \<open>for\<close> loops with their early returns, as one function of the loop
  indices. \<open>board[r][c]\<close> throws when the board has no row \<open>r\<close>, and so does
  \<open>board[r + 1][c]\<close> when it has no row \<open>r + 1\<close>; a cell missing from a row that exists
  reads as \<open>undefined\<close>.
\<close>

function hasMoves_loop :: "nat \<Rightarrow> nat \<Rightarrow> Board \<Rightarrow> failure + bool" where
  "hasMoves_loop r c board =
     (if r < BOARD_SIZE then
        (if c < BOARD_SIZE then
           (case idx board r of
              None \<Rightarrow> Inl TypeError
            | Some row \<Rightarrow>
                (if idx row c = Some 0 then Inr True
                 else if c < BOARD_SIZE - 1 \<and> idx row c = idx row (c + 1) then Inr True
                 else if r < BOARD_SIZE - 1 then
                   (case idx board (r + 1) of
                      None \<Rightarrow> Inl TypeError
                    | Some below \<Rightarrow>
                        (if idx row c = idx below c then Inr True
                         else hasMoves_loop r (c + 1) board))
                 else hasMoves_loop r (c + 1) board))
         else hasMoves_loop (r + 1) 0 board)
      else Inr False)"
  by pat_completeness auto
termination
  by (relation "measures [\<lambda>(r, c, board). BOARD_SIZE - r,
                          \<lambda>(r, c, board). BOARD_SIZE + 1 - c]") auto

declare hasMoves_loop.simps [simp del]

definition hasMoves :: "Board \<Rightarrow> failure + bool" where
  "hasMoves board = hasMoves_loop 0 0 board"

subsection \<open>addRandomTile\<close>

text \<open>
  \<open>emptyCells\<close> is filled row by row, and within a row from left to right. The two
  calls of \<open>Math.random\<close> are arguments of the model: \<open>k\<close> is the value of
  \<open>Math.floor(Math.random() * emptyCells.length)\<close> and \<open>lt\<close> is the outcome of
  \<open>Math.random() < TILE_PROBABILITIES[0]\<close>. \<open>Math.random\<close> returns a number in [0, 1),
  so \<open>k\<close> is below the number of empty cells; for any other \<open>k\<close> the destructuring
  of \<open>emptyCells[k]\<close> would throw.
\<close>

definition emptyCells :: "Board \<Rightarrow> (nat \<times> nat) list" where
  "emptyCells board =
     concat (map (\<lambda>r. map (\<lambda>c. (r, c)) (filter (\<lambda>c. board ! r ! c = 0) [0..<length (board ! r)]))
               [0..<length board])"

definition addRandomTile :: "Board \<Rightarrow> nat \<Rightarrow> bool \<Rightarrow> failure + Board" where
  "addRandomTile board k lt =
     (if length (emptyCells board) = 0 then Inr board
      else
        (case idx (emptyCells board) k of
           None \<Rightarrow> Inl TypeError
         | Some (r, c) \<Rightarrow>
             (let v = (if lt then TILE_VALUES ! 0 else TILE_VALUES ! 1);
                  newBoard = map (\<lambda>row. row) board
              in Inr (newBoard[r := (newBoard ! r)[c := v]]))))"

subsection \<open>handleMove\<close>

text \<open>
  One call of \<open>handleMove\<close> on the state of the component: the calls of the state
  setters it makes, in order, and the failure it ends with, if any.
  \<open>setScore(prev => prev + scoreDelta)\<close> is \<open>AddScore scoreDelta\<close>. With \<open>gameOver\<close>
  set the function returns before it looks at the direction. The comparison of the two
  \<open>JSON.stringify\<close> results is equality of the boards.
\<close>

record game =
  board :: Board
  score :: int
  gameOver :: bool

datatype update = SetBoard Board | AddScore int | SetGameOver bool

definition handleMove :: "game \<Rightarrow> string \<Rightarrow> nat \<Rightarrow> bool \<Rightarrow> update list \<times> failure option" where
  "handleMove g direction k lt =
     (if gameOver g then ([], None)
      else
        (case resolve (board g) direction of
           Inl e \<Rightarrow> ([], Some e)
         | Inr res \<Rightarrow>
             (if newBoard res \<noteq> board g then
                (case addRandomTile (newBoard res) k lt of
                   Inl e \<Rightarrow> ([], Some e)
                 | Inr updatedBoard \<Rightarrow>
                     (case hasMoves updatedBoard of
                        Inl e \<Rightarrow> ([SetBoard updatedBoard, AddScore (scoreDelta res)], Some e)
                      | Inr movable \<Rightarrow>
                          ([SetBoard updatedBoard, AddScore (scoreDelta res)] @
                             (if \<not> movable then [SetGameOver True] else []),
                           None)))
              else ([], None))))"

subsection \<open>The boards of the specification\<close>

text \<open>A board of the game has four rows of four cells.\<close>

definition is4x4 :: "Board \<Rightarrow> bool" where
  "is4x4 b = (length b = BOARD_SIZE \<and> list_all (\<lambda>row. length row = BOARD_SIZE) b)"

text \<open>The sum of all tile values of a board.\<close>

definition cells_sum :: "Board \<Rightarrow> int" where
  "cells_sum b = sum_list (concat b)"

text \<open>
  A line is packed when no zero stands to the left of a non-zero entry: once a zero
  appears, every later entry is zero.
\<close>

fun packed :: "int list \<Rightarrow> bool" where
  "packed [] = True"
| "packed (v # vs) = (if v = 0 then list_all (\<lambda>w. w = 0) vs else packed vs)"

text \<open>Column \<open>c\<close> of a board, read from the top row to the bottom row.\<close>

definition column :: "Board \<Rightarrow> nat \<Rightarrow> int list" where
  "column b c = map (\<lambda>row. row ! c) b"

text \<open>
  Cell \<open>(r, c)\<close> offers a move: it is empty, or equal to its right neighbour, or equal
  to the cell below it.
\<close>

definition offers_move :: "Board \<Rightarrow> nat \<Rightarrow> nat \<Rightarrow> bool" where
  "offers_move b r c =
     (b ! r ! c = 0 \<or>
      (c + 1 < BOARD_SIZE \<and> b ! r ! c = b ! r ! (c + 1)) \<or>
      (r + 1 < BOARD_SIZE \<and> b ! r ! c = b ! (r + 1) ! c))"

text \<open>
  A full line without two equal neighbours: four cells, none of them empty, no cell equal
  to the next one.
\<close>

definition stuck :: "int list \<Rightarrow> bool" where
  "stuck row = (length row = BOARD_SIZE \<and> 0 \<notin> set row \<and> distinct_adj row)"

text \<open>
  The score of one line as the specification words it. The non-zero values of the line
  are scanned from the end moved toward; two equal neighbours merge and contribute twice
  their value, once; the scan goes on behind the pair, so no tile merges twice.
\<close>

fun pair_score :: "int list \<Rightarrow> int" where
  "pair_score (x # y # xs) = (if x = y then 2 * x + pair_score xs else pair_score (y # xs))"
| "pair_score xs = 0"

definition line_score :: "int list \<Rightarrow> int" where
  "line_score line = pair_score (filter (\<lambda>v. v \<noteq> 0) line)"

section \<open>The line reducer on concrete rows\<close>

lemma compress_pad_replicate:
  "compress_pad xs = xs @ replicate (BOARD_SIZE - length xs) 0"
proof (induction xs rule: compress_pad.induct)
  case (1 newRow)
  show ?case
  proof (cases "length newRow < BOARD_SIZE")
    case True
    then have "BOARD_SIZE - length newRow = Suc (BOARD_SIZE - length (newRow @ [0]))"
      by simp
    with True 1 show ?thesis
      by (simp add: compress_pad.simps [of newRow] replicate_append_same)
  next
    case False
    then show ?thesis by (simp add: compress_pad.simps [of newRow])
  qed
qed

lemma compress_eq:
  "compress row = filter (\<lambda>v. v \<noteq> 0) row @ replicate (BOARD_SIZE - length (filter (\<lambda>v. v \<noteq> 0) row)) 0"
  by (simp add: compress_def compress_pad_replicate)

text \<open>
  C2: the single-pass no-revisit rule. The line [2,2,2,0], compressed and then merged as
  the left move does per row, gives [4,2,0,0] with score 4 (only the first pair merges),
  and [2,2,2,2] gives [4,4,0,0] with score 8.
\<close>

theorem C2_no_revisit:
  "merge (compress [2, 2, 2, 0]) = Inr \<lparr>scoreDelta = 4, mergedRow = [4, 2, 0, 0]\<rparr> \<and>
   merge (compress [2, 2, 2, 2]) = Inr \<lparr>scoreDelta = 8, mergedRow = [4, 4, 0, 0]\<rparr>"
  by code_simp

lemma length_compress:
  "length (compress row) = max BOARD_SIZE (length (filter (\<lambda>v. v \<noteq> 0) row))"
  by (simp add: compress_eq)

lemma length_compress_ge: "BOARD_SIZE \<le> length (compress row)"
  by (simp add: length_compress)

lemma length_compress_4: "length row = BOARD_SIZE \<Longrightarrow> length (compress row) = BOARD_SIZE"
proof -
  assume "length row = BOARD_SIZE"
  moreover have "length (filter (\<lambda>v. v \<noteq> 0) row) \<le> length row"
    by (rule length_filter_le)
  ultimately show ?thesis
    by (simp add: length_compress)
qed

lemma sum_list_filter_nonzero: "sum_list (filter (\<lambda>v. v \<noteq> 0) (row :: int list)) = sum_list row"
  by (induction row) auto

lemma sum_list_compress: "sum_list (compress row) = sum_list row"
  by (simp add: compress_eq sum_list_filter_nonzero sum_list_replicate)

lemma filter_nonzero_pad:
  "filter (\<lambda>v. v \<noteq> 0) (xs @ replicate n (0::int)) = filter (\<lambda>v. v \<noteq> 0) xs"
  by simp

lemma compress_idem: "compress (compress row) = compress row"
  by (simp add: compress_eq)

lemma compress_id:
  assumes "length row = BOARD_SIZE" and "0 \<notin> set row"
  shows "compress row = row"
proof -
  from assms(2) have "filter (\<lambda>v. v \<noteq> 0) row = row"
    by (induction row) auto
  with assms(1) show ?thesis
    by (simp add: compress_eq)
qed

lemma sum_list_update_int:
  "k < length xs \<Longrightarrow> sum_list (xs[k := x]) = sum_list xs + x - (xs ! k :: int)"
proof (induction xs arbitrary: k)
  case Nil
  then show ?case by simp
next
  case (Cons a xs)
  then show ?case by (cases k) auto
qed

lemma merge_loop_ok:
  "BOARD_SIZE \<le> length row \<Longrightarrow>
   \<exists>row' sd'. merge_loop i row sd = Inr (row', sd') \<and> length row' = length row \<and>
     sum_list row' = sum_list row"
proof (induction i row sd rule: merge_loop.induct)
  case (1 i newRow sd)
  show ?case
  proof (cases "i < BOARD_SIZE - 1")
    case False
    then show ?thesis by (simp add: merge_loop.simps [of i newRow sd])
  next
    case True
    with "1.prems" have len: "i < length newRow" "Suc i < length newRow"
      by auto
    show ?thesis
    proof (cases "newRow ! i \<noteq> 0 \<and> newRow ! i = newRow ! Suc i")
      case False
      then have ncond: "\<not> (idx newRow i \<noteq> Some 0 \<and> idx newRow i = idx newRow (i + 1))"
        using len by (simp add: idx_def)
      have "merge_loop i newRow sd = merge_loop (i + 1) newRow sd"
        using True ncond by (auto simp add: merge_loop.simps [of i newRow sd])
      with "1.IH"(2) [OF True ncond "1.prems"] show ?thesis
        by simp
    next
      case eq: True
      let ?v = "newRow ! i"
      let ?next = "newRow[i := ?v * 2, i + 1 := 0]"
      have cond: "idx newRow i \<noteq> Some 0 \<and> idx newRow i = idx newRow (i + 1)"
        using eq len by (simp add: idx_def)
      have "BOARD_SIZE \<le> length ?next"
        using "1.prems" by simp
      moreover have here: "idx newRow i = Some ?v"
        using len by (simp add: idx_def)
      ultimately obtain row' sd' where
        r: "merge_loop (i + 1) ?next (sd + ?v * 2) = Inr (row', sd')"
        "length row' = length ?next" "sum_list row' = sum_list ?next"
        using "1.IH"(1) [OF True cond here] by blast
      have same: "sum_list ?next = sum_list newRow"
        using len eq by (simp add: sum_list_update_int)
      have there: "idx newRow (Suc i) = Some ?v" and nz: "?v \<noteq> 0"
        using len eq by (simp_all add: idx_def)
      have "merge_loop i newRow sd = merge_loop (i + 1) ?next (sd + ?v * 2)"
        using True by (simp add: merge_loop.simps [of i newRow sd] here there nz)
      with same r show ?thesis
        by simp
    qed
  qed
qed

lemma merge_compress_ok:
  "\<exists>m. merge (compress row) = Inr m \<and> sum_list (mergedRow m) = sum_list row \<and>
     compress (mergedRow m) = mergedRow m \<and> BOARD_SIZE \<le> length (mergedRow m) \<and>
     (length row = BOARD_SIZE \<longrightarrow> length (mergedRow m) = BOARD_SIZE)"
proof -
  from merge_loop_ok [OF length_compress_ge, of 0 row 0]
  obtain row' sd' where r: "merge_loop 0 (compress row) 0 = Inr (row', sd')"
    "length row' = length (compress row)" "sum_list row' = sum_list (compress row)"
    by blast
  let ?m = "\<lparr>scoreDelta = sd', mergedRow = compress row'\<rparr>"
  have "merge (compress row) = Inr ?m"
    using r(1) by (simp add: merge_def)
  moreover have "sum_list (mergedRow ?m) = sum_list row"
    using r(3) by (simp add: sum_list_compress)
  moreover have "compress (mergedRow ?m) = mergedRow ?m"
    by (simp add: compress_idem)
  moreover have "BOARD_SIZE \<le> length (mergedRow ?m)"
    by (simp add: length_compress_ge)
  moreover have "length row = BOARD_SIZE \<longrightarrow> length (mergedRow ?m) = BOARD_SIZE"
    using r(2) by (simp add: length_compress_4)
  ultimately show ?thesis by blast
qed

section \<open>The left move on boards of any shape\<close>

lemma moveLeft_rows_ok:
  "\<exists>rows sd'. moveLeft_rows b sd = Inr (rows, sd') \<and> length rows = length b \<and>
     sum_list (concat rows) = sum_list (concat b) \<and>
     (\<forall>row\<in>set rows. compress row = row \<and> BOARD_SIZE \<le> length row) \<and>
     (list_all (\<lambda>row. length row = BOARD_SIZE) b \<longrightarrow>
        list_all (\<lambda>row. length row = BOARD_SIZE) rows)"
proof (induction b arbitrary: sd)
  case Nil
  show ?case by simp
next
  case (Cons row rest)
  obtain m where m: "merge (compress row) = Inr m" "sum_list (mergedRow m) = sum_list row"
    "compress (mergedRow m) = mergedRow m" "BOARD_SIZE \<le> length (mergedRow m)"
    "length row = BOARD_SIZE \<longrightarrow> length (mergedRow m) = BOARD_SIZE"
    using merge_compress_ok [of row] by blast
  obtain rows sd' where
    r: "moveLeft_rows rest (sd + scoreDelta m) = Inr (rows, sd')" "length rows = length rest"
    "sum_list (concat rows) = sum_list (concat rest)"
    "\<forall>row\<in>set rows. compress row = row \<and> BOARD_SIZE \<le> length row"
    "list_all (\<lambda>row. length row = BOARD_SIZE) rest \<longrightarrow>
       list_all (\<lambda>row. length row = BOARD_SIZE) rows"
    using Cons.IH [of "sd + scoreDelta m"] by blast
  have "moveLeft_rows (row # rest) sd = Inr (mergedRow m # rows, sd')"
    using m(1) r(1) by simp
  with m r show ?case
    by simp
qed

lemma moveLeft_ok:
  "\<exists>res. moveLeft b = Inr res \<and> length (newBoard res) = length b \<and>
     cells_sum (newBoard res) = cells_sum b \<and>
     (\<forall>row\<in>set (newBoard res). compress row = row \<and> BOARD_SIZE \<le> length row) \<and>
     (is4x4 b \<longrightarrow> is4x4 (newBoard res))"
proof -
  obtain rows sd' where
    r: "moveLeft_rows b 0 = Inr (rows, sd')" "length rows = length b"
    "sum_list (concat rows) = sum_list (concat b)"
    "\<forall>row\<in>set rows. compress row = row \<and> BOARD_SIZE \<le> length row"
    "list_all (\<lambda>row. length row = BOARD_SIZE) b \<longrightarrow>
       list_all (\<lambda>row. length row = BOARD_SIZE) rows"
    using moveLeft_rows_ok [of b 0] by blast
  have "moveLeft b = Inr \<lparr>scoreDelta = sd', newBoard = rows\<rparr>"
    using r(1) by (simp add: moveLeft_def)
  with r show ?thesis
    by (simp add: cells_sum_def is4x4_def)
qed

section \<open>reverse\<close>

lemma reverse_reverse: "reverse (reverse b) = b"
  by (simp add: reverse_def comp_def)

lemma is4x4_reverse: "is4x4 (reverse b) = is4x4 b"
  by (simp add: reverse_def is4x4_def list_all_iff)

lemma cells_sum_reverse: "cells_sum (reverse b) = cells_sum b"
  unfolding cells_sum_def reverse_def by (induction b) simp_all

lemma moveRight_ok:
  "\<exists>m. moveLeft (reverse b) = Inr m \<and>
     moveRight b = Inr \<lparr>scoreDelta = scoreDelta m, newBoard = reverse (newBoard m)\<rparr>"
proof -
  obtain m where "moveLeft (reverse b) = Inr m"
    using moveLeft_ok [of "reverse b"] by blast
  then show ?thesis
    by (simp add: moveRight_def)
qed

section \<open>Boards of four rows of four cells\<close>

lemma length_4_cases:
  assumes "length (xs :: 'a list) = BOARD_SIZE"
  obtains a b c d where "xs = [a, b, c, d]"
proof -
  from assms have "length xs = Suc (Suc (Suc (Suc 0)))"
    by (simp add: BOARD_SIZE_def)
  then show ?thesis
    using that by (auto simp: length_Suc_conv)
qed

lemma is4x4_cases:
  assumes "is4x4 b"
  obtains a0 a1 a2 a3 b0 b1 b2 b3 c0 c1 c2 c3 d0 d1 d2 d3 where
    "b = [[a0, a1, a2, a3], [b0, b1, b2, b3], [c0, c1, c2, c3], [d0, d1, d2, d3]]"
proof -
  from assms have len: "length b = BOARD_SIZE"
    and rows: "\<And>row. row \<in> set b \<Longrightarrow> length row = BOARD_SIZE"
    by (simp_all add: is4x4_def list_all_iff)
  obtain r0 r1 r2 r3 where b: "b = [r0, r1, r2, r3]"
    using len by (rule length_4_cases)
  obtain a0 a1 a2 a3 where "r0 = [a0, a1, a2, a3]"
    using rows [of r0] b by (auto elim: length_4_cases)
  moreover obtain b0 b1 b2 b3 where "r1 = [b0, b1, b2, b3]"
    using rows [of r1] b by (auto elim: length_4_cases)
  moreover obtain c0 c1 c2 c3 where "r2 = [c0, c1, c2, c3]"
    using rows [of r2] b by (auto elim: length_4_cases)
  moreover obtain d0 d1 d2 d3 where "r3 = [d0, d1, d2, d3]"
    using rows [of r3] b by (auto elim: length_4_cases)
  ultimately show ?thesis
    using b that by blast
qed

lemma upt_4: "[0..<4] = [0, 1, 2, 3]"
  by (simp add: upt_rec)

lemma transpose_4x4_explicit:
  "transpose_board [[a0, a1, a2, a3], [b0, b1, b2, b3], [c0, c1, c2, c3], [d0, d1, d2, d3]] =
     Inr [[a0, b0, c0, d0], [a1, b1, c1, d1], [a2, b2, c2, d2], [a3, b3, c3, d3]]"
  by (simp add: transpose_board_def upt_4)

lemma is4x4_explicit:
  "is4x4 [[a0, a1, a2, a3], [b0, b1, b2, b3], [c0, c1, c2, c3], [d0, d1, d2, d3]]"
  by (simp add: is4x4_def BOARD_SIZE_def)

lemma transpose_4x4:
  assumes "is4x4 b"
  shows "\<exists>t. transpose_board b = Inr t \<and> is4x4 t \<and> transpose_board t = Inr b \<and>
    cells_sum t = cells_sum b \<and> map (column t) [0..<BOARD_SIZE] = b \<and>
    map (column b) [0..<BOARD_SIZE] = t"
proof -
  obtain a0 a1 a2 a3 b0 b1 b2 b3 c0 c1 c2 c3 d0 d1 d2 d3 where
    b: "b = [[a0, a1, a2, a3], [b0, b1, b2, b3], [c0, c1, c2, c3], [d0, d1, d2, d3]]"
    using assms by (rule is4x4_cases)
  let ?t = "[[a0, b0, c0, d0], [a1, b1, c1, d1], [a2, b2, c2, d2], [a3, b3, c3, d3]]"
  have t1: "transpose_board b = Inr ?t"
    unfolding b by (rule transpose_4x4_explicit)
  have t2: "is4x4 ?t"
    by (rule is4x4_explicit)
  have t3: "transpose_board ?t = Inr b"
    unfolding b by (rule transpose_4x4_explicit)
  have t4: "cells_sum ?t = cells_sum b"
    unfolding b by (simp add: cells_sum_def)
  have t5: "map (column ?t) [0..<BOARD_SIZE] = b"
    unfolding b by (simp add: column_def BOARD_SIZE_def upt_4)
  have t6: "map (column b) [0..<BOARD_SIZE] = ?t"
    unfolding b by (simp add: column_def BOARD_SIZE_def upt_4)
  show ?thesis
    by (rule exI [of _ ?t]) (intro conjI t1 t2 t3 t4 t5 t6)
qed

section \<open>The scan of hasMoves on a board of four rows of four cells\<close>

lemma is4x4_nth:
  assumes "is4x4 b" and "r < BOARD_SIZE"
  shows "idx b r = Some (b ! r)" and "length (b ! r) = BOARD_SIZE"
  using assms by (simp_all add: is4x4_def idx_def list_all_length)

lemma hasMoves_loop_done: "\<not> r < BOARD_SIZE \<Longrightarrow> hasMoves_loop r c b = Inr False"
  by (simp add: hasMoves_loop.simps [of r c b])

lemma hasMoves_loop_next_row:
  "r < BOARD_SIZE \<Longrightarrow> \<not> c < BOARD_SIZE \<Longrightarrow> hasMoves_loop r c b = hasMoves_loop (r + 1) 0 b"
  by (simp add: hasMoves_loop.simps [of r c b])

lemma hasMoves_loop_cell:
  assumes "is4x4 b" and r: "r < BOARD_SIZE" and c: "c < BOARD_SIZE"
  shows "hasMoves_loop r c b =
    (if offers_move b r c then Inr True else hasMoves_loop r (c + 1) b)"
proof -
  have row: "idx b r = Some (b ! r)" and len: "length (b ! r) = BOARD_SIZE"
    using assms(1) r by (rule is4x4_nth)+
  have cell: "idx (b ! r) c = Some (b ! r ! c)"
    using c len by (simp add: idx_def)
  have right: "Suc c < BOARD_SIZE \<Longrightarrow> idx (b ! r) (Suc c) = Some (b ! r ! Suc c)"
    using len by (simp add: idx_def)
  have below: "Suc r < BOARD_SIZE \<Longrightarrow> idx b (Suc r) = Some (b ! Suc r)"
    and below_cell: "Suc r < BOARD_SIZE \<Longrightarrow> idx (b ! Suc r) c = Some (b ! Suc r ! c)"
    using is4x4_nth [OF assms(1), of "Suc r"] c by (simp_all add: idx_def)
  have cr: "(c < BOARD_SIZE - Suc 0) = (Suc c < BOARD_SIZE)"
    and rr: "(r < BOARD_SIZE - Suc 0) = (Suc r < BOARD_SIZE)"
    by arith+
  show ?thesis
  proof (cases "Suc c < BOARD_SIZE")
    case cT: True
    show ?thesis
    proof (cases "Suc r < BOARD_SIZE")
      case True
      with cT r c show ?thesis
        by (simp add: hasMoves_loop.simps [of r c b] row cell right below below_cell
            offers_move_def cr rr)
    next
      case False
      with cT r c show ?thesis
        by (simp add: hasMoves_loop.simps [of r c b] row cell right offers_move_def cr rr)
    qed
  next
    case cF: False
    show ?thesis
    proof (cases "Suc r < BOARD_SIZE")
      case True
      with cF r c show ?thesis
        by (simp add: hasMoves_loop.simps [of r c b] row cell below below_cell
            offers_move_def cr rr)
    next
      case False
      with cF r c show ?thesis
        by (simp add: hasMoves_loop.simps [of r c b] row cell offers_move_def cr rr)
    qed
  qed
qed

lemma hasMoves_row_scan:
  assumes "is4x4 b" and r: "r < BOARD_SIZE"
  shows "c \<le> BOARD_SIZE \<Longrightarrow> hasMoves_loop r c b =
    (if \<exists>c'. c \<le> c' \<and> c' < BOARD_SIZE \<and> offers_move b r c' then Inr True
     else hasMoves_loop (r + 1) 0 b)"
proof (induction "BOARD_SIZE - c" arbitrary: c)
  case 0
  then have "\<not> c < BOARD_SIZE" by simp
  then show ?case
    using hasMoves_loop_next_row [OF r, of c b] by auto
next
  case (Suc n)
  then have c: "c < BOARD_SIZE" and n: "n = BOARD_SIZE - (c + 1)" and c1: "c + 1 \<le> BOARD_SIZE"
    by simp_all
  note step = hasMoves_loop_cell [OF assms(1) r c]
  show ?case
  proof (cases "offers_move b r c")
    case True
    then have "\<exists>c'. c \<le> c' \<and> c' < BOARD_SIZE \<and> offers_move b r c'"
      using c by blast
    with True step show ?thesis by simp
  next
    case False
    have "(\<exists>c'. c \<le> c' \<and> c' < BOARD_SIZE \<and> offers_move b r c') =
          (\<exists>c'. c + 1 \<le> c' \<and> c' < BOARD_SIZE \<and> offers_move b r c')"
    proof
      assume "\<exists>c'. c \<le> c' \<and> c' < BOARD_SIZE \<and> offers_move b r c'"
      then obtain c' where c': "c \<le> c'" "c' < BOARD_SIZE" "offers_move b r c'"
        by blast
      with False have "c' \<noteq> c" by blast
      with c' show "\<exists>c'. c + 1 \<le> c' \<and> c' < BOARD_SIZE \<and> offers_move b r c'"
        by (intro exI [of _ c']) simp
    next
      assume "\<exists>c'. c + 1 \<le> c' \<and> c' < BOARD_SIZE \<and> offers_move b r c'"
      then obtain c' where "c + 1 \<le> c'" "c' < BOARD_SIZE" "offers_move b r c'"
        by blast
      then show "\<exists>c'. c \<le> c' \<and> c' < BOARD_SIZE \<and> offers_move b r c'"
        by (intro exI [of _ c']) simp
    qed
    with False step Suc.hyps(1) [OF n c1] show ?thesis
      by simp
  qed
qed

lemma hasMoves_board_scan:
  assumes "is4x4 b"
  shows "r \<le> BOARD_SIZE \<Longrightarrow> hasMoves_loop r 0 b =
    Inr (\<exists>r'. r \<le> r' \<and> r' < BOARD_SIZE \<and> (\<exists>c'<BOARD_SIZE. offers_move b r' c'))"
proof (induction "BOARD_SIZE - r" arbitrary: r)
  case 0
  then have "\<not> r < BOARD_SIZE" by simp
  then show ?case
    using hasMoves_loop_done [of r 0 b] by auto
next
  case (Suc n)
  then have r: "r < BOARD_SIZE" and n: "n = BOARD_SIZE - (r + 1)" and r1: "r + 1 \<le> BOARD_SIZE"
    by simp_all
  have row: "hasMoves_loop r 0 b =
    (if \<exists>c'<BOARD_SIZE. offers_move b r c' then Inr True else hasMoves_loop (r + 1) 0 b)"
    using hasMoves_row_scan [OF assms r, of 0] by simp
  note rest = Suc.hyps(1) [OF n r1]
  show ?case
  proof (cases "\<exists>c'<BOARD_SIZE. offers_move b r c'")
    case True
    then have "\<exists>r'. r \<le> r' \<and> r' < BOARD_SIZE \<and> (\<exists>c'<BOARD_SIZE. offers_move b r' c')"
      using r by (intro exI [of _ r]) simp
    moreover have "hasMoves_loop r 0 b = Inr True"
      unfolding row using True by (rule if_P)
    ultimately show ?thesis by simp
  next
    case False
    have "(\<exists>r'. r \<le> r' \<and> r' < BOARD_SIZE \<and> (\<exists>c'<BOARD_SIZE. offers_move b r' c')) =
          (\<exists>r'. r + 1 \<le> r' \<and> r' < BOARD_SIZE \<and> (\<exists>c'<BOARD_SIZE. offers_move b r' c'))"
    proof
      assume "\<exists>r'. r \<le> r' \<and> r' < BOARD_SIZE \<and> (\<exists>c'<BOARD_SIZE. offers_move b r' c')"
      then obtain r' where r': "r \<le> r'" "r' < BOARD_SIZE" "\<exists>c'<BOARD_SIZE. offers_move b r' c'"
        by blast
      with False have "r' \<noteq> r" by blast
      with r' show "\<exists>r'. r + 1 \<le> r' \<and> r' < BOARD_SIZE \<and> (\<exists>c'<BOARD_SIZE. offers_move b r' c')"
        by (intro exI [of _ r']) simp
    next
      assume "\<exists>r'. r + 1 \<le> r' \<and> r' < BOARD_SIZE \<and> (\<exists>c'<BOARD_SIZE. offers_move b r' c')"
      then obtain r' where "r + 1 \<le> r'" "r' < BOARD_SIZE" "\<exists>c'<BOARD_SIZE. offers_move b r' c'"
        by blast
      then show "\<exists>r'. r \<le> r' \<and> r' < BOARD_SIZE \<and> (\<exists>c'<BOARD_SIZE. offers_move b r' c')"
        by (intro exI [of _ r']) simp
    qed
    moreover have "hasMoves_loop r 0 b = hasMoves_loop (r + 1) 0 b"
      unfolding row using False by (rule if_not_P)
    ultimately show ?thesis
      using rest by simp
  qed
qed

lemma hasMoves_4x4:
  assumes "is4x4 b"
  shows "hasMoves b = Inr (\<exists>r<BOARD_SIZE. \<exists>c<BOARD_SIZE. offers_move b r c)"
  using hasMoves_board_scan [OF assms, of 0] by (simp add: hasMoves_def)

section \<open>Terminal detection\<close>

lemma zero_cell_offers_move:
  assumes "is4x4 b" and "\<exists>row\<in>set b. 0 \<in> set row"
  shows "\<exists>r<BOARD_SIZE. \<exists>c<BOARD_SIZE. offers_move b r c"
proof -
  from assms(2) obtain row where row: "row \<in> set b" "0 \<in> set row"
    by blast
  from row(1) obtain r where r: "r < length b" "b ! r = row"
    by (auto simp: in_set_conv_nth)
  from row(2) obtain c where c: "c < length row" "row ! c = 0"
    by (auto simp: in_set_conv_nth)
  from assms(1) r have "r < BOARD_SIZE" and "length row = BOARD_SIZE"
    by (auto simp: is4x4_def list_all_length)
  with r c have "r < BOARD_SIZE \<and> c < BOARD_SIZE \<and> offers_move b r c"
    by (simp add: offers_move_def)
  then show ?thesis by blast
qed

text \<open>
  C5: on a board of four rows of four cells \<open>hasMoves\<close> returns true exactly when some
  cell is 0, or equals its right neighbour in the same row, or equals the cell below it in
  the same column. In particular a board with a zero cell gives true.
\<close>

theorem C5_hasMoves_iff:
  assumes "is4x4 b"
  shows "hasMoves b =
      Inr (\<exists>r<BOARD_SIZE. \<exists>c<BOARD_SIZE.
             b ! r ! c = 0 \<or>
             (c + 1 < BOARD_SIZE \<and> b ! r ! c = b ! r ! (c + 1)) \<or>
             (r + 1 < BOARD_SIZE \<and> b ! r ! c = b ! (r + 1) ! c)) \<and>
    ((\<exists>row\<in>set b. 0 \<in> set row) \<longrightarrow> hasMoves b = Inr True)"
proof
  show "hasMoves b =
      Inr (\<exists>r<BOARD_SIZE. \<exists>c<BOARD_SIZE.
             b ! r ! c = 0 \<or>
             (c + 1 < BOARD_SIZE \<and> b ! r ! c = b ! r ! (c + 1)) \<or>
             (r + 1 < BOARD_SIZE \<and> b ! r ! c = b ! (r + 1) ! c))"
    using hasMoves_4x4 [OF assms] by (simp only: offers_move_def)
  show "(\<exists>row\<in>set b. 0 \<in> set row) \<longrightarrow> hasMoves b = Inr True"
    using hasMoves_4x4 [OF assms] zero_cell_offers_move [OF assms] by simp
qed

theorem C5_hasMoves_iff_witness:
  "is4x4 [[2, 4, 2, 4], [4, 2, 4, 0], [2, 4, 2, 4], [4, 2, 4, 2]] \<and>
   (\<exists>row\<in>set [[2, 4, 2, 4], [4, 2, 4, 0], [2, 4, 2, 4], [4, 2, 4, 2 :: int]]. 0 \<in> set row) \<and>
   hasMoves [[2, 4, 2, 4], [4, 2, 4, 0], [2, 4, 2, 4], [4, 2, 4, 2]] = Inr True"
proof -
  have h: "is4x4 [[2, 4, 2, 4], [4, 2, 4, 0], [2, 4, 2, 4], [4, 2, 4, 2]]"
    by (rule is4x4_explicit)
  have z: "\<exists>row\<in>set [[2, 4, 2, 4], [4, 2, 4, 0], [2, 4, 2, 4], [4, 2, 4, 2 :: int]]. 0 \<in> set row"
    by simp
  note C5_hasMoves_iff [OF h, THEN conjunct2, THEN mp, OF z]
  with h z show ?thesis
    by (intro conjI)
qed

section \<open>The orientation adapters\<close>

text \<open>
  C9: \<open>transpose\<close> and \<open>reverse\<close> are self-inverse on a board of four rows of four
  cells: transposing twice and reversing twice both give the board back.
\<close>

theorem C9_adapters_self_inverse:
  assumes "is4x4 b"
  shows "(\<exists>t. transpose_board b = Inr t \<and> transpose_board t = Inr b) \<and>
    reverse (reverse b) = b"
proof
  from transpose_4x4 [OF assms] obtain t where
    "transpose_board b = Inr t" "transpose_board t = Inr b"
    by (elim exE conjE)
  then show "\<exists>t. transpose_board b = Inr t \<and> transpose_board t = Inr b"
    by (intro exI [of _ t] conjI)
  show "reverse (reverse b) = b"
    by (rule reverse_reverse)
qed

theorem C9_adapters_self_inverse_witness:
  "is4x4 [[2, 0, 0, 4], [0, 8, 0, 0], [16, 0, 2, 0], [0, 0, 0, 32]] \<and>
   transpose_board [[2, 0, 0, 4], [0, 8, 0, 0], [16, 0, 2, 0], [0, 0, 0, 32]] =
     Inr [[2, 0, 16, 0], [0, 8, 0, 0], [0, 0, 2, 0], [4, 0, 0, 32]] \<and>
   transpose_board [[2, 0, 16, 0], [0, 8, 0, 0], [0, 0, 2, 0], [4, 0, 0, 32]] =
     Inr [[2, 0, 0, 4], [0, 8, 0, 0], [16, 0, 2, 0], [0, 0, 0, 32]] \<and>
   reverse (reverse [[2, 0, 0, 4], [0, 8, 0, 0], [16, 0, 2, 0], [0, 0, 0, 32]]) =
     [[2, 0, 0, 4], [0, 8, 0, 0], [16, 0, 2, 0], [0, 0, 0, 32]]"
proof -
  have h: "is4x4 [[2, 0, 0, 4], [0, 8, 0, 0], [16, 0, 2, 0], [0, 0, 0, 32]]"
    by (rule is4x4_explicit)
  have t: "transpose_board [[2, 0, 0, 4], [0, 8, 0, 0], [16, 0, 2, 0], [0, 0, 0, 32]] =
      Inr [[2, 0, 16, 0], [0, 8, 0, 0], [0, 0, 2, 0], [4, 0, 0, 32]]"
    by (rule transpose_4x4_explicit)
  from C9_adapters_self_inverse [OF h] t h show ?thesis
    by simp
qed

section \<open>The tile spawner\<close>

lemma emptyCells_set:
  "(r, c) \<in> set (emptyCells b) \<longleftrightarrow> r < length b \<and> c < length (b ! r) \<and> b ! r ! c = 0"
  by (auto simp: emptyCells_def)

lemma emptyCells_Nil_iff: "emptyCells b = [] \<longleftrightarrow> (\<forall>row\<in>set b. 0 \<notin> set row)"
proof
  assume e: "emptyCells b = []"
  show "\<forall>row\<in>set b. 0 \<notin> set row"
  proof (intro ballI notI)
    fix row
    assume "row \<in> set b" and "0 \<in> set row"
    then obtain r c where "r < length b" "b ! r = row" "c < length row" "row ! c = 0"
      by (auto simp: in_set_conv_nth)
    then have "(r, c) \<in> set (emptyCells b)"
      by (simp add: emptyCells_set)
    with e show False by simp
  qed
next
  assume full: "\<forall>row\<in>set b. 0 \<notin> set row"
  show "emptyCells b = []"
  proof (rule ccontr)
    assume "emptyCells b \<noteq> []"
    then obtain p ps where "emptyCells b = p # ps"
      by (cases "emptyCells b") simp_all
    then have p: "p \<in> set (emptyCells b)"
      by simp
    obtain r c where "p = (r, c)"
      by (cases p)
    with p have "(r, c) \<in> set (emptyCells b)"
      by simp
    then have "r < length b" "c < length (b ! r)" "b ! r ! c = 0"
      by (simp_all add: emptyCells_set)
    then have "b ! r \<in> set b" and "0 \<in> set (b ! r)"
      by (auto simp: in_set_conv_nth)
    with full show False by blast
  qed
qed

lemma update_cell_frame:
  "\<forall>r'<length b. length (b[r := (b ! r)[c := v]] ! r') = length (b ! r') \<and>
     (\<forall>c'<length (b ! r'). (r', c') \<noteq> (r, c) \<longrightarrow>
        b[r := (b ! r)[c := v]] ! r' ! c' = b ! r' ! c')"
proof (intro allI impI conjI)
  fix r'
  assume "r' < length b"
  then show "length (b[r := (b ! r)[c := v]] ! r') = length (b ! r')"
    by (cases "r' = r") simp_all
next
  fix r' c'
  assume "r' < length b" and "c' < length (b ! r')" and "(r', c') \<noteq> (r, c)"
  then show "b[r := (b ! r)[c := v]] ! r' ! c' = b ! r' ! c'"
    by (cases "r' = r") simp_all
qed

text \<open>
  C7: on a board with no empty cell \<open>addRandomTile\<close> returns the board unchanged,
  whatever the random draws are; it does not fail.
\<close>

theorem C7_spawn_full_board:
  assumes "\<forall>row\<in>set b. 0 \<notin> set row"
  shows "addRandomTile b k lt = Inr b"
proof -
  from assms have "emptyCells b = []"
    by (simp only: emptyCells_Nil_iff)
  then show ?thesis
    by (simp add: addRandomTile_def)
qed

theorem C7_spawn_full_board_witness:
  "addRandomTile [[2, 4, 2, 4], [4, 2, 4, 2], [2, 4, 2, 4], [4, 2, 4, 2]] 0 True =
     Inr [[2, 4, 2, 4], [4, 2, 4, 2], [2, 4, 2, 4], [4, 2, 4, 2]]"
proof -
  have h: "\<forall>row\<in>set [[2, 4, 2, 4], [4, 2, 4, 2], [2, 4, 2, 4], [4, 2, 4, 2 :: int]]. 0 \<notin> set row"
    by simp
  show ?thesis
    by (rule C7_spawn_full_board [OF h, of 0 True])
qed

text \<open>
  C6: on a board with at least one empty cell, and with a random index below the number
  of empty cells, \<open>addRandomTile\<close> returns a board of the same shape that differs from
  the input in exactly one cell; that cell held 0 and now holds 2 or 4.
\<close>

theorem C6_spawn_one_cell:
  assumes "\<exists>row\<in>set b. 0 \<in> set row" and "k < length (emptyCells b)"
  shows "\<exists>nb r c. addRandomTile b k lt = Inr nb \<and>
    r < length b \<and> c < length (b ! r) \<and> b ! r ! c = 0 \<and>
    (nb ! r ! c = 2 \<or> nb ! r ! c = 4) \<and>
    length nb = length b \<and>
    (\<forall>r'<length b. length (nb ! r') = length (b ! r') \<and>
       (\<forall>c'<length (b ! r'). (r', c') \<noteq> (r, c) \<longrightarrow> nb ! r' ! c' = b ! r' ! c'))"
proof -
  obtain r c where rc: "emptyCells b ! k = (r, c)"
    by (cases "emptyCells b ! k")
  with assms(2) have "(r, c) \<in> set (emptyCells b)"
    by (metis nth_mem)
  then have r: "r < length b" and c: "c < length (b ! r)" and z: "b ! r ! c = 0"
    by (simp_all add: emptyCells_set)
  let ?v = "if lt then TILE_VALUES ! 0 else TILE_VALUES ! 1"
  let ?nb = "b[r := (b ! r)[c := ?v]]"
  have v: "?v = 2 \<or> ?v = 4"
    by (simp add: TILE_VALUES_def)
  have ne: "emptyCells b \<noteq> []"
    using assms(2) by auto
  have run: "addRandomTile b k lt = Inr ?nb"
    using assms(2) rc ne by (simp add: addRandomTile_def idx_def Let_def)
  have cell: "?nb ! r ! c = ?v"
    using r c by simp
  have frame: "\<forall>r'<length b. length (?nb ! r') = length (b ! r') \<and>
       (\<forall>c'<length (b ! r'). (r', c') \<noteq> (r, c) \<longrightarrow> ?nb ! r' ! c' = b ! r' ! c')"
    by (rule update_cell_frame)
  have len: "length ?nb = length b"
    by simp
  have v': "?nb ! r ! c = 2 \<or> ?nb ! r ! c = 4"
    unfolding cell by (rule v)
  show ?thesis
    using run r c z v' len frame
    by (intro exI [of _ ?nb] exI [of _ r] exI [of _ c] conjI)
qed

theorem C6_spawn_one_cell_witness:
  "(\<exists>row\<in>set [[2, 0, 4, 0], [0, 2, 0, 0 :: int]]. 0 \<in> set row) \<and>
   2 < length (emptyCells [[2, 0, 4, 0], [0, 2, 0, 0]]) \<and>
   (\<exists>nb r c. addRandomTile [[2, 0, 4, 0], [0, 2, 0, 0]] 2 False = Inr nb \<and>
      r < length [[2, 0, 4, 0], [0, 2, 0, 0 :: int]] \<and>
      c < length ([[2, 0, 4, 0], [0, 2, 0, 0 :: int]] ! r) \<and>
      [[2, 0, 4, 0], [0, 2, 0, 0 :: int]] ! r ! c = 0 \<and>
      (nb ! r ! c = 2 \<or> nb ! r ! c = 4) \<and>
      length nb = length [[2, 0, 4, 0], [0, 2, 0, 0 :: int]] \<and>
      (\<forall>r'<length [[2, 0, 4, 0], [0, 2, 0, 0 :: int]].
         length (nb ! r') = length ([[2, 0, 4, 0], [0, 2, 0, 0 :: int]] ! r') \<and>
         (\<forall>c'<length ([[2, 0, 4, 0], [0, 2, 0, 0 :: int]] ! r').
            (r', c') \<noteq> (r, c) \<longrightarrow> nb ! r' ! c' = [[2, 0, 4, 0], [0, 2, 0, 0]] ! r' ! c')))"
proof -
  have h: "\<exists>row\<in>set [[2, 0, 4, 0], [0, 2, 0, 0 :: int]]. 0 \<in> set row"
    by simp
  have k: "2 < length (emptyCells [[2, 0, 4, 0], [0, 2, 0, 0]])"
    by code_simp
  from h k C6_spawn_one_cell [OF h k, of False] show ?thesis
    by (intro conjI)
qed

lemma spawn_example:
  "addRandomTile [[2, 0, 4, 0], [0, 2, 0, 0]] 2 False = Inr [[2, 0, 4, 0], [4, 2, 0, 0]]"
  by code_simp

section \<open>The four moves on a board of four rows of four cells\<close>

lemma moveLeft_4x4:
  assumes "is4x4 b"
  obtains m where "moveLeft b = Inr m" and "is4x4 (newBoard m)"
    and "cells_sum (newBoard m) = cells_sum b"
    and "\<forall>row\<in>set (newBoard m). compress row = row"
proof -
  from moveLeft_ok [of b] obtain m where "moveLeft b = Inr m"
    "cells_sum (newBoard m) = cells_sum b"
    "\<forall>row\<in>set (newBoard m). compress row = row \<and> BOARD_SIZE \<le> length row"
    "is4x4 b \<longrightarrow> is4x4 (newBoard m)"
    by (elim exE conjE)
  with assms that show ?thesis
    by simp
qed

lemma moveRight_4x4:
  assumes "is4x4 b"
  obtains m where "moveLeft (reverse b) = Inr m" and "is4x4 (newBoard m)"
    and "cells_sum (newBoard m) = cells_sum b"
    and "\<forall>row\<in>set (newBoard m). compress row = row"
    and "moveRight b = Inr \<lparr>scoreDelta = scoreDelta m, newBoard = reverse (newBoard m)\<rparr>"
proof -
  have "is4x4 (reverse b)"
    using assms by (simp only: is4x4_reverse)
  then obtain m where m: "moveLeft (reverse b) = Inr m" "is4x4 (newBoard m)"
    "cells_sum (newBoard m) = cells_sum (reverse b)"
    "\<forall>row\<in>set (newBoard m). compress row = row"
    by (rule moveLeft_4x4)
  have "moveRight b = Inr \<lparr>scoreDelta = scoreDelta m, newBoard = reverse (newBoard m)\<rparr>"
    using m(1) by (simp add: moveRight_def)
  with m that show ?thesis
    by (simp add: cells_sum_reverse)
qed

lemma moveUp_4x4:
  assumes "is4x4 b"
  obtains t m bk where "transpose_board b = Inr t" and "is4x4 t"
    and "map (column b) [0..<BOARD_SIZE] = t"
    and "moveLeft t = Inr m" and "is4x4 (newBoard m)"
    and "cells_sum (newBoard m) = cells_sum b"
    and "\<forall>row\<in>set (newBoard m). compress row = row"
    and "transpose_board (newBoard m) = Inr bk" and "is4x4 bk"
    and "cells_sum bk = cells_sum b"
    and "map (column bk) [0..<BOARD_SIZE] = newBoard m"
    and "moveUp b = Inr \<lparr>scoreDelta = scoreDelta m, newBoard = bk\<rparr>"
proof -
  from transpose_4x4 [OF assms] obtain t where t: "transpose_board b = Inr t" "is4x4 t"
    "cells_sum t = cells_sum b" "map (column b) [0..<BOARD_SIZE] = t"
    by (elim exE conjE)
  from t(2) obtain m where m: "moveLeft t = Inr m" "is4x4 (newBoard m)"
    "cells_sum (newBoard m) = cells_sum t"
    "\<forall>row\<in>set (newBoard m). compress row = row"
    by (rule moveLeft_4x4)
  from transpose_4x4 [OF m(2)] obtain bk where
    bk: "transpose_board (newBoard m) = Inr bk" "is4x4 bk"
    "cells_sum bk = cells_sum (newBoard m)" "map (column bk) [0..<BOARD_SIZE] = newBoard m"
    by (elim exE conjE)
  have "moveUp b = Inr \<lparr>scoreDelta = scoreDelta m, newBoard = bk\<rparr>"
    using t(1) m(1) bk(1) by (simp add: moveUp_def)
  moreover have "cells_sum (newBoard m) = cells_sum b" "cells_sum bk = cells_sum b"
    using t(3) m(3) bk(3) by simp_all
  ultimately show ?thesis
    using t m bk that by simp
qed

lemma moveDown_4x4:
  assumes "is4x4 b"
  obtains t m bk where "transpose_board b = Inr t" and "is4x4 t"
    and "map (column b) [0..<BOARD_SIZE] = t"
    and "moveLeft (reverse t) = Inr m" and "is4x4 (newBoard m)"
    and "cells_sum (newBoard m) = cells_sum b"
    and "\<forall>row\<in>set (newBoard m). compress row = row"
    and "transpose_board (reverse (newBoard m)) = Inr bk" and "is4x4 bk"
    and "cells_sum bk = cells_sum b"
    and "map (column bk) [0..<BOARD_SIZE] = reverse (newBoard m)"
    and "moveDown b = Inr \<lparr>scoreDelta = scoreDelta m, newBoard = bk\<rparr>"
proof -
  from transpose_4x4 [OF assms] obtain t where t: "transpose_board b = Inr t" "is4x4 t"
    "cells_sum t = cells_sum b" "map (column b) [0..<BOARD_SIZE] = t"
    by (elim exE conjE)
  from t(2) obtain m where m: "moveLeft (reverse t) = Inr m" "is4x4 (newBoard m)"
    "cells_sum (newBoard m) = cells_sum t"
    "\<forall>row\<in>set (newBoard m). compress row = row"
    "moveRight t = Inr \<lparr>scoreDelta = scoreDelta m, newBoard = reverse (newBoard m)\<rparr>"
    by (rule moveRight_4x4)
  have "is4x4 (reverse (newBoard m))"
    using m(2) by (simp only: is4x4_reverse)
  from transpose_4x4 [OF this] obtain bk where
    bk: "transpose_board (reverse (newBoard m)) = Inr bk" "is4x4 bk"
    "cells_sum bk = cells_sum (reverse (newBoard m))"
    "map (column bk) [0..<BOARD_SIZE] = reverse (newBoard m)"
    by (elim exE conjE)
  have "moveDown b = Inr \<lparr>scoreDelta = scoreDelta m, newBoard = bk\<rparr>"
    using t(1) m(5) bk(1) by (simp add: moveDown_def)
  moreover have "cells_sum (newBoard m) = cells_sum b" "cells_sum bk = cells_sum b"
    using t(3) m(3) bk(3) by (simp_all add: cells_sum_reverse)
  ultimately show ?thesis
    using t m bk that by simp
qed

section \<open>Conservation of the tile sum and the score of a move\<close>

lemma length_le_4_cases:
  assumes "length (xs :: 'a list) \<le> BOARD_SIZE"
  obtains "xs = []" | a where "xs = [a]" | a b where "xs = [a, b]"
    | a b c where "xs = [a, b, c]" | a b c d where "xs = [a, b, c, d]"
proof -
  from assms have "length xs \<le> 4"
    by (simp add: BOARD_SIZE_def)
  then have "length xs = 0 \<or> length xs = Suc 0 \<or> length xs = Suc (Suc 0) \<or>
    length xs = Suc (Suc (Suc 0)) \<or> length xs = Suc (Suc (Suc (Suc 0)))"
    by arith
  then show ?thesis
    using that by (auto simp: length_Suc_conv)
qed

lemma merge_loop_score:
  assumes "0 \<notin> set xs" and "length xs \<le> BOARD_SIZE"
  shows "\<exists>row'. merge_loop 0 (xs @ replicate (BOARD_SIZE - length xs) 0) 0 =
    Inr (row', pair_score xs)"
  using assms(2)
proof (cases xs rule: length_le_4_cases)
  case 1
  then show ?thesis
    by (simp add: merge_loop.simps BOARD_SIZE_def idx_def numeral_eq_Suc)
next
  case (2 a)
  with assms(1) show ?thesis
    by (simp add: merge_loop.simps BOARD_SIZE_def idx_def numeral_eq_Suc)
next
  case (3 a b)
  with assms(1) show ?thesis
    by (simp add: merge_loop.simps BOARD_SIZE_def idx_def numeral_eq_Suc)
next
  case (4 a b c)
  with assms(1) show ?thesis
    by (simp add: merge_loop.simps BOARD_SIZE_def idx_def numeral_eq_Suc)
next
  case (5 a b c d)
  with assms(1) show ?thesis
    by (simp add: merge_loop.simps BOARD_SIZE_def idx_def numeral_eq_Suc)
qed


lemma merge_score:
  assumes "length row = BOARD_SIZE"
  shows "\<exists>m. merge (compress row) = Inr m \<and> scoreDelta m = line_score row"
proof -
  let ?xs = "filter (\<lambda>v. v \<noteq> 0) row"
  have "length ?xs \<le> length row"
    by (rule length_filter_le)
  with assms have "length ?xs \<le> BOARD_SIZE"
    by simp
  moreover have "0 \<notin> set ?xs"
    by simp
  ultimately obtain row' where
    "merge_loop 0 (?xs @ replicate (BOARD_SIZE - length ?xs) 0) 0 = Inr (row', pair_score ?xs)"
    using merge_loop_score [of ?xs] by blast
  then have "merge (compress row) = Inr \<lparr>scoreDelta = line_score row, mergedRow = compress row'\<rparr>"
    by (simp add: merge_def compress_eq line_score_def)
  then show ?thesis
    by simp
qed

lemma moveLeft_rows_score:
  "list_all (\<lambda>row. length row = BOARD_SIZE) b \<Longrightarrow> moveLeft_rows b sd = Inr (rows, sd') \<Longrightarrow>
   sd' = sd + (\<Sum>row\<leftarrow>b. line_score row)"
proof (induction b arbitrary: sd rows sd')
  case Nil
  then show ?case by simp
next
  case (Cons row rest)
  from Cons.prems(1) have len: "length row = BOARD_SIZE"
    and rest: "list_all (\<lambda>row. length row = BOARD_SIZE) rest"
    by simp_all
  from merge_score [OF len] obtain m where
    m: "merge (compress row) = Inr m" "scoreDelta m = line_score row"
    by blast
  from Cons.prems(2) m(1) obtain rows' where
    "moveLeft_rows rest (sd + scoreDelta m) = Inr (rows', sd')"
    by (auto split: sum.splits)
  from Cons.IH [OF rest this] m(2) show ?case
    by simp
qed

lemma moveLeft_score:
  assumes "is4x4 b" and "moveLeft b = Inr m"
  shows "scoreDelta m = (\<Sum>row\<leftarrow>b. line_score row)"
proof -
  from assms(2) obtain rows sd where r: "moveLeft_rows b 0 = Inr (rows, sd)"
    and m: "m = \<lparr>scoreDelta = sd, newBoard = rows\<rparr>"
    by (auto simp: moveLeft_def split: sum.splits)
  from assms(1) have "list_all (\<lambda>row. length row = BOARD_SIZE) b"
    by (simp add: is4x4_def)
  from moveLeft_rows_score [OF this r] m show ?thesis
    by simp
qed

lemma moveRight_score:
  assumes "is4x4 b" and "moveLeft (reverse b) = Inr m"
  shows "scoreDelta m = (\<Sum>row\<leftarrow>b. line_score (rev row))"
proof -
  have "is4x4 (reverse b)"
    using assms(1) by (simp only: is4x4_reverse)
  from moveLeft_score [OF this assms(2)] show ?thesis
    by (simp add: reverse_def comp_def)
qed

text \<open>
  C1, as the code has it: on a board of four rows of four cells every move returns a
  result; it leaves the sum of all tile values unchanged, because a merge replaces two
  tiles of value v by one tile of value 2v; and its score is the sum of the scores of the
  four lines moved, each line read from the end moved toward.
\<close>

theorem C1_sum_and_score:
  assumes "is4x4 b"
  shows "(\<exists>res. resolve b ''left'' = Inr res \<and> cells_sum (newBoard res) = cells_sum b \<and>
      scoreDelta res = (\<Sum>row\<leftarrow>b. line_score row)) \<and>
    (\<exists>res. resolve b ''right'' = Inr res \<and> cells_sum (newBoard res) = cells_sum b \<and>
      scoreDelta res = (\<Sum>row\<leftarrow>b. line_score (rev row))) \<and>
    (\<exists>res. resolve b ''up'' = Inr res \<and> cells_sum (newBoard res) = cells_sum b \<and>
      scoreDelta res = (\<Sum>c\<leftarrow>[0..<BOARD_SIZE]. line_score (column b c))) \<and>
    (\<exists>res. resolve b ''down'' = Inr res \<and> cells_sum (newBoard res) = cells_sum b \<and>
      scoreDelta res = (\<Sum>c\<leftarrow>[0..<BOARD_SIZE]. line_score (rev (column b c))))"
proof (intro conjI)
  from assms obtain m where m: "moveLeft b = Inr m" "cells_sum (newBoard m) = cells_sum b"
    by (rule moveLeft_4x4) blast
  from m moveLeft_score [OF assms m(1)]
  show "\<exists>res. resolve b ''left'' = Inr res \<and> cells_sum (newBoard res) = cells_sum b \<and>
      scoreDelta res = (\<Sum>row\<leftarrow>b. line_score row)"
    by (intro exI [of _ m]) (simp add: resolve_def)
next
  from assms obtain m where m: "moveLeft (reverse b) = Inr m"
    "cells_sum (newBoard m) = cells_sum b"
    "moveRight b = Inr \<lparr>scoreDelta = scoreDelta m, newBoard = reverse (newBoard m)\<rparr>"
    by (rule moveRight_4x4) blast
  let ?res = "\<lparr>scoreDelta = scoreDelta m, newBoard = reverse (newBoard m)\<rparr>"
  from m moveRight_score [OF assms m(1)]
  show "\<exists>res. resolve b ''right'' = Inr res \<and> cells_sum (newBoard res) = cells_sum b \<and>
      scoreDelta res = (\<Sum>row\<leftarrow>b. line_score (rev row))"
    by (intro exI [of _ ?res]) (simp add: resolve_def cells_sum_reverse)
next
  from assms obtain t m bk where m: "is4x4 t" "map (column b) [0..<BOARD_SIZE] = t"
    "moveLeft t = Inr m" "cells_sum bk = cells_sum b"
    "moveUp b = Inr \<lparr>scoreDelta = scoreDelta m, newBoard = bk\<rparr>"
    by (rule moveUp_4x4) blast
  let ?res = "\<lparr>scoreDelta = scoreDelta m, newBoard = bk\<rparr>"
  have "scoreDelta m = (\<Sum>c\<leftarrow>[0..<BOARD_SIZE]. line_score (column b c))"
    using moveLeft_score [OF m(1) m(3)] unfolding m(2) [symmetric]
    by (simp add: comp_def)
  with m show "\<exists>res. resolve b ''up'' = Inr res \<and> cells_sum (newBoard res) = cells_sum b \<and>
      scoreDelta res = (\<Sum>c\<leftarrow>[0..<BOARD_SIZE]. line_score (column b c))"
    by (intro exI [of _ ?res]) (simp add: resolve_def)
next
  from assms obtain t m bk where m: "is4x4 t" "map (column b) [0..<BOARD_SIZE] = t"
    "moveLeft (reverse t) = Inr m" "cells_sum bk = cells_sum b"
    "moveDown b = Inr \<lparr>scoreDelta = scoreDelta m, newBoard = bk\<rparr>"
    by (rule moveDown_4x4) blast
  let ?res = "\<lparr>scoreDelta = scoreDelta m, newBoard = bk\<rparr>"
  have "scoreDelta m = (\<Sum>c\<leftarrow>[0..<BOARD_SIZE]. line_score (rev (column b c)))"
    using moveRight_score [OF m(1) m(3)] unfolding m(2) [symmetric]
    by (simp add: comp_def)
  with m show "\<exists>res. resolve b ''down'' = Inr res \<and> cells_sum (newBoard res) = cells_sum b \<and>
      scoreDelta res = (\<Sum>c\<leftarrow>[0..<BOARD_SIZE]. line_score (rev (column b c)))"
    by (intro exI [of _ ?res]) (simp add: resolve_def)
qed

theorem C1_sum_and_score_witness:
  "is4x4 [[2, 0, 2, 4], [0, 4, 0, 4], [8, 0, 0, 0], [2, 2, 2, 2]] \<and>
   ((\<exists>res. resolve [[2, 0, 2, 4], [0, 4, 0, 4], [8, 0, 0, 0], [2, 2, 2, 2]] ''left'' = Inr res \<and>
      cells_sum (newBoard res) = cells_sum [[2, 0, 2, 4], [0, 4, 0, 4], [8, 0, 0, 0], [2, 2, 2, 2]] \<and>
      scoreDelta res =
        (\<Sum>row\<leftarrow>[[2, 0, 2, 4], [0, 4, 0, 4], [8, 0, 0, 0], [2, 2, 2, 2]]. line_score row)) \<and>
    (\<exists>res. resolve [[2, 0, 2, 4], [0, 4, 0, 4], [8, 0, 0, 0], [2, 2, 2, 2]] ''right'' = Inr res \<and>
      cells_sum (newBoard res) = cells_sum [[2, 0, 2, 4], [0, 4, 0, 4], [8, 0, 0, 0], [2, 2, 2, 2]] \<and>
      scoreDelta res =
        (\<Sum>row\<leftarrow>[[2, 0, 2, 4], [0, 4, 0, 4], [8, 0, 0, 0], [2, 2, 2, 2]]. line_score (rev row))) \<and>
    (\<exists>res. resolve [[2, 0, 2, 4], [0, 4, 0, 4], [8, 0, 0, 0], [2, 2, 2, 2]] ''up'' = Inr res \<and>
      cells_sum (newBoard res) = cells_sum [[2, 0, 2, 4], [0, 4, 0, 4], [8, 0, 0, 0], [2, 2, 2, 2]] \<and>
      scoreDelta res =
        (\<Sum>c\<leftarrow>[0..<BOARD_SIZE].
           line_score (column [[2, 0, 2, 4], [0, 4, 0, 4], [8, 0, 0, 0], [2, 2, 2, 2]] c))) \<and>
    (\<exists>res. resolve [[2, 0, 2, 4], [0, 4, 0, 4], [8, 0, 0, 0], [2, 2, 2, 2]] ''down'' = Inr res \<and>
      cells_sum (newBoard res) = cells_sum [[2, 0, 2, 4], [0, 4, 0, 4], [8, 0, 0, 0], [2, 2, 2, 2]] \<and>
      scoreDelta res =
        (\<Sum>c\<leftarrow>[0..<BOARD_SIZE].
           line_score (rev (column [[2, 0, 2, 4], [0, 4, 0, 4], [8, 0, 0, 0], [2, 2, 2, 2]] c)))))"
proof -
  have h: "is4x4 [[2, 0, 2, 4], [0, 4, 0, 4], [8, 0, 0, 0], [2, 2, 2, 2]]"
    by (rule is4x4_explicit)
  from h C1_sum_and_score [OF h] show ?thesis
    by (rule conjI)
qed

text \<open>The line scores of that board, for the four directions.\<close>

lemma line_score_example:
  "(\<Sum>row\<leftarrow>[[2, 0, 2, 4], [0, 4, 0, 4], [8, 0, 0, 0], [2, 2, 2, 2]]. line_score row) = 20"
  "(\<Sum>row\<leftarrow>[[2, 0, 2, 4], [0, 4, 0, 4], [8, 0, 0, 0], [2, 2, 2, 2]]. line_score (rev row)) = 20"
  "(\<Sum>c\<leftarrow>[0..<BOARD_SIZE].
      line_score (column [[2, 0, 2, 4], [0, 4, 0, 4], [8, 0, 0, 0], [2, 2, 2, 2]] c)) = 12"
  "(\<Sum>c\<leftarrow>[0..<BOARD_SIZE].
      line_score (rev (column [[2, 0, 2, 4], [0, 4, 0, 4], [8, 0, 0, 0], [2, 2, 2, 2]] c))) = 12"
  "line_score [2, 2, 2, 0] = 4" "line_score [2, 2, 2, 2] = 8" "line_score [4, 2, 2, 0] = 4"
  by code_simp+

text \<open>
  The claim as written fails: moving [2,2,0,0] to the left scores 4, and the board sum
  stays 4 instead of rising to 8.
\<close>

theorem C1_sum_plus_score_counterexample:
  "resolve [[2, 2, 0, 0], [0, 0, 0, 0], [0, 0, 0, 0], [0, 0, 0, 0]] ''left'' =
     Inr \<lparr>scoreDelta = 4, newBoard = [[4, 0, 0, 0], [0, 0, 0, 0], [0, 0, 0, 0], [0, 0, 0, 0]]\<rparr> \<and>
   cells_sum [[4, 0, 0, 0], [0, 0, 0, 0], [0, 0, 0, 0], [0, 0, 0, 0]] \<noteq>
     cells_sum [[2, 2, 0, 0], [0, 0, 0, 0], [0, 0, 0, 0], [0, 0, 0, 0]] + 4"
  by code_simp

section \<open>Directions and board shapes the specification calls invalid\<close>

lemma resolve_4x4:
  assumes "is4x4 b" and "direction \<in> Direction"
  shows "\<exists>res. resolve b direction = Inr res"
proof -
  consider "direction = ''up''" | "direction = ''down''" | "direction = ''left''"
    | "direction = ''right''"
    using assms(2) by (auto simp: Direction_def)
  then show ?thesis
  proof cases
    case 1
    from assms(1) obtain t and m :: move_result and bk where
      "moveUp b = Inr \<lparr>scoreDelta = scoreDelta m, newBoard = bk\<rparr>"
      by (rule moveUp_4x4) blast
    with 1 show ?thesis by (simp add: resolve_def)
  next
    case 2
    from assms(1) obtain t and m :: move_result and bk where
      "moveDown b = Inr \<lparr>scoreDelta = scoreDelta m, newBoard = bk\<rparr>"
      by (rule moveDown_4x4) blast
    with 2 show ?thesis by (simp add: resolve_def)
  next
    case 3
    from assms(1) obtain m where "moveLeft b = Inr m"
      by (rule moveLeft_4x4) blast
    with 3 show ?thesis by (simp add: resolve_def)
  next
    case 4
    from assms(1) obtain m :: move_result where
      "moveRight b = Inr \<lparr>scoreDelta = scoreDelta m, newBoard = reverse (newBoard m)\<rparr>"
      by (rule moveRight_4x4) blast
    with 4 show ?thesis by (simp add: resolve_def)
  qed
qed

lemma resolve_unknown: "direction \<notin> Direction \<Longrightarrow> resolve b direction = Inl TypeError"
  by (simp add: resolve_def Direction_def)

lemma transpose_board_failure:
  "transpose_board b = Inl e \<Longrightarrow> e = TypeError \<or> e = Undefined_cell"
  by (auto simp: transpose_board_def split: list.splits if_splits)

lemma moveLeft_no_failure: "moveLeft b \<noteq> Inl e"
  using moveLeft_ok [of b] by auto

lemma moveRight_no_failure: "moveRight b \<noteq> Inl e"
  using moveRight_ok [of b] by auto

lemma moveUp_failure: "moveUp b = Inl e \<Longrightarrow> e = TypeError \<or> e = Undefined_cell"
  by (auto simp: moveUp_def moveLeft_no_failure split: sum.splits
      dest: transpose_board_failure)

lemma moveDown_failure: "moveDown b = Inl e \<Longrightarrow> e = TypeError \<or> e = Undefined_cell"
  by (auto simp: moveDown_def moveRight_no_failure split: sum.splits
      dest: transpose_board_failure)

lemma resolve_failure: "resolve b direction = Inl e \<Longrightarrow> e = TypeError \<or> e = Undefined_cell"
  by (auto simp: resolve_def moveLeft_no_failure moveRight_no_failure split: if_splits
      dest: moveUp_failure moveDown_failure)

lemma addRandomTile_failure: "addRandomTile b k lt = Inl e \<Longrightarrow> e = TypeError"
  by (auto simp: addRandomTile_def Let_def split: if_splits option.splits)

lemma hasMoves_loop_failure: "hasMoves_loop r c b = Inl e \<Longrightarrow> e = TypeError"
proof (induction r c b rule: hasMoves_loop.induct)
  case (1 r c board)
  from "1.prems" show ?case
    by (subst (asm) hasMoves_loop.simps) (auto split: if_splits option.splits intro: "1.IH")
qed

lemma hasMoves_failure: "hasMoves b = Inl e \<Longrightarrow> e = TypeError"
  unfolding hasMoves_def by (rule hasMoves_loop_failure)

lemma handleMove_failure:
  "snd (handleMove g direction k lt) = Some e \<Longrightarrow> e = TypeError \<or> e = Undefined_cell"
  by (auto simp: handleMove_def split: if_splits sum.splits
      dest: resolve_failure addRandomTile_failure hasMoves_failure)


text \<open>
  C3, as the code has it: \<open>handleMove\<close> takes the four directions only, and for each of
  them the move resolution of a board of four rows of four cells returns a result. A
  value outside the four, which the parameter type excludes, is not rejected with
  InvalidDirection: with \<open>gameOver\<close> set \<open>handleMove\<close> returns at once and nothing
  fails, otherwise no case of the \<open>switch\<close> matches and the destructuring of the
  undefined result throws the runtime's TypeError. No call of \<open>handleMove\<close> ends with
  InvalidDirection.
\<close>

theorem C3_directions:
  "(direction \<in> Direction \<longrightarrow> is4x4 (board g) \<longrightarrow> (\<exists>res. resolve (board g) direction = Inr res)) \<and>
   (direction \<notin> Direction \<longrightarrow>
      handleMove g direction k lt = (if gameOver g then ([], None) else ([], Some TypeError))) \<and>
   snd (handleMove g direction k lt) \<noteq> Some InvalidDirection"
proof (intro conjI impI)
  assume "direction \<in> Direction" and "is4x4 (board g)"
  then show "\<exists>res. resolve (board g) direction = Inr res"
    by (intro resolve_4x4)
next
  assume "direction \<notin> Direction"
  then have "resolve (board g) direction = Inl TypeError"
    by (rule resolve_unknown)
  then show "handleMove g direction k lt =
      (if gameOver g then ([], None) else ([], Some TypeError))"
    by (simp add: handleMove_def)
next
  show "snd (handleMove g direction k lt) \<noteq> Some InvalidDirection"
    using handleMove_failure [of g direction k lt InvalidDirection] by auto
qed

theorem C3_directions_witness:
  "(\<exists>res. resolve [[2, 2, 0, 0], [0, 0, 0, 0], [0, 0, 0, 0], [0, 0, 0, 0]] ''left'' = Inr res) \<and>
   handleMove \<lparr>board = [[2, 2, 0, 0], [0, 0, 0, 0], [0, 0, 0, 0], [0, 0, 0, 0]], score = 0,
       gameOver = False\<rparr> ''diagonal'' 0 True = ([], Some TypeError) \<and>
   handleMove \<lparr>board = [[2, 2, 0, 0], [0, 0, 0, 0], [0, 0, 0, 0], [0, 0, 0, 0]], score = 0,
       gameOver = True\<rparr> ''diagonal'' 0 True = ([], None)"
proof -
  let ?B = "[[2, 2, 0, 0], [0, 0, 0, 0], [0, 0, 0, 0], [0, 0, 0, 0 :: int]]"
  have h: "is4x4 ?B"
    by (rule is4x4_explicit)
  have l: "''left'' \<in> Direction" and d: "''diagonal'' \<notin> Direction"
    by (simp_all add: Direction_def)
  have "\<exists>res. resolve ?B ''left'' = Inr res"
    using C3_directions [of "''left''" "\<lparr>board = ?B, score = 0, gameOver = False\<rparr>" 0 True] h l
    by simp
  moreover have "handleMove \<lparr>board = ?B, score = 0, gameOver = False\<rparr> ''diagonal'' 0 True =
      ([], Some TypeError)"
    using C3_directions [of "''diagonal''" "\<lparr>board = ?B, score = 0, gameOver = False\<rparr>" 0 True] d
    by simp
  moreover have "handleMove \<lparr>board = ?B, score = 0, gameOver = True\<rparr> ''diagonal'' 0 True =
      ([], None)"
    using C3_directions [of "''diagonal''" "\<lparr>board = ?B, score = 0, gameOver = True\<rparr>" 0 True] d
    by simp
  ultimately show ?thesis
    by (intro conjI)
qed

text \<open>
  The claim as written fails: for the direction ''diagonal'' the call ends with
  TypeError when the game is running, and without any failure when the game is over; it
  never ends with InvalidDirection.
\<close>

theorem C3_invalid_direction_counterexample:
  "''diagonal'' \<notin> Direction \<and>
   snd (handleMove \<lparr>board = [[2, 2, 0, 0], [0, 0, 0, 0], [0, 0, 0, 0], [0, 0, 0, 0]], score = 0,
       gameOver = False\<rparr> ''diagonal'' 0 True) = Some TypeError \<and>
   snd (handleMove \<lparr>board = [[2, 2, 0, 0], [0, 0, 0, 0], [0, 0, 0, 0], [0, 0, 0, 0]], score = 0,
       gameOver = True\<rparr> ''diagonal'' 0 True) = None"
  by (simp add: handleMove_def resolve_def Direction_def)

text \<open>One accepted move and one rejected move through \<open>handleMove\<close>.\<close>

lemma handleMove_example:
  "handleMove \<lparr>board = [[2, 2, 0, 0], [0, 0, 0, 0], [0, 0, 0, 0], [0, 0, 0, 0]], score = 0,
       gameOver = False\<rparr> ''left'' 1 True =
     ([SetBoard [[4, 0, 2, 0], [0, 0, 0, 0], [0, 0, 0, 0], [0, 0, 0, 0]], AddScore 4], None)"
  "handleMove \<lparr>board = [[4, 0, 0, 0], [0, 0, 0, 0], [0, 0, 0, 0], [0, 0, 0, 0]], score = 4,
       gameOver = False\<rparr> ''left'' 1 True = ([], None)"
  by code_simp+

text \<open>
  C8, as the code has it: no function checks the shape of the board, and none returns an
  InvalidBoard error. The left and the right move return normally on a board of any
  shape: the result has as many rows as the input, and every row is padded to at least
  \<open>BOARD_SIZE\<close> cells.
\<close>

theorem C8_moves_accept_any_shape:
  "(\<exists>res. moveLeft b = Inr res \<and> length (newBoard res) = length b \<and>
      (\<forall>row\<in>set (newBoard res). BOARD_SIZE \<le> length row)) \<and>
   (\<exists>res. moveRight b = Inr res \<and> length (newBoard res) = length b \<and>
      (\<forall>row\<in>set (newBoard res). BOARD_SIZE \<le> length row))"
proof
  from moveLeft_ok [of b] obtain res where "moveLeft b = Inr res"
    "length (newBoard res) = length b"
    "\<forall>row\<in>set (newBoard res). compress row = row \<and> BOARD_SIZE \<le> length row"
    by (elim exE conjE)
  then show "\<exists>res. moveLeft b = Inr res \<and> length (newBoard res) = length b \<and>
      (\<forall>row\<in>set (newBoard res). BOARD_SIZE \<le> length row)"
    by (intro exI [of _ res]) simp
next
  from moveLeft_ok [of "reverse b"] obtain m where m: "moveLeft (reverse b) = Inr m"
    "length (newBoard m) = length (reverse b)"
    "\<forall>row\<in>set (newBoard m). compress row = row \<and> BOARD_SIZE \<le> length row"
    by (elim exE conjE)
  let ?res = "\<lparr>scoreDelta = scoreDelta m, newBoard = reverse (newBoard m)\<rparr>"
  have "moveRight b = Inr ?res"
    using m(1) by (simp add: moveRight_def)
  moreover have "length (newBoard ?res) = length b"
    using m(2) by (simp add: reverse_def)
  moreover have "\<forall>row\<in>set (newBoard ?res). BOARD_SIZE \<le> length row"
    using m(3) by (auto simp: reverse_def)
  ultimately show "\<exists>res. moveRight b = Inr res \<and> length (newBoard res) = length b \<and>
      (\<forall>row\<in>set (newBoard res). BOARD_SIZE \<le> length row)"
    by (intro exI [of _ ?res] conjI)
qed

theorem C8_moves_accept_any_shape_witness:
  "(\<exists>res. moveLeft [[2, 2, 0]] = Inr res \<and> length (newBoard res) = length [[2, 2, 0 :: int]] \<and>
      (\<forall>row\<in>set (newBoard res). BOARD_SIZE \<le> length row)) \<and>
   (\<exists>res. moveRight [[2, 2, 0]] = Inr res \<and> length (newBoard res) = length [[2, 2, 0 :: int]] \<and>
      (\<forall>row\<in>set (newBoard res). BOARD_SIZE \<le> length row))"
  by (rule C8_moves_accept_any_shape [of "[[2, 2, 0]]"])

text \<open>
  The claim as written fails: a board of one row of three cells is moved to the left
  without any error.
\<close>

theorem C8_invalid_board_counterexample:
  "\<not> is4x4 [[2, 2, 0]] \<and>
   moveLeft [[2, 2, 0]] = Inr \<lparr>scoreDelta = 4, newBoard = [[4, 0, 0, 0]]\<rparr>"
  by code_simp

text \<open>What the operations do on some other boards that are not four by four.\<close>

lemma wrong_shape_examples:
  "moveRight [[2, 2, 0]] = Inr \<lparr>scoreDelta = 4, newBoard = [[0, 0, 0, 4]]\<rparr>"
  "moveLeft [[2, 2, 4, 4, 8]] = Inr \<lparr>scoreDelta = 12, newBoard = [[4, 8, 8, 0]]\<rparr>"
  "hasMoves [[2, 4], [4, 2]] = Inr True"
  "hasMoves [[2]] = Inl TypeError"
  "transpose_board [] = Inl TypeError"
  "transpose_board [[2, 4], [8]] = Inl Undefined_cell"
  "merge [2] = Inl NaN_value"
  by code_simp+

section \<open>Packed lines\<close>

lemma packed_zeros: "list_all (\<lambda>w. w = 0) vs \<Longrightarrow> packed vs"
  by (induction vs) simp_all

lemma packed_pad: "0 \<notin> set xs \<Longrightarrow> packed (xs @ replicate n 0)"
proof (induction xs)
  case Nil
  show ?case
    by (rule packed_zeros) (simp add: list_all_iff)
next
  case (Cons x xs)
  then show ?case by simp
qed

lemma packed_compress: "packed (compress row)"
  unfolding compress_eq by (rule packed_pad) simp

lemma packed_iff_nth:
  "packed row \<longleftrightarrow> (\<forall>j<length row. \<forall>i<j. row ! i = 0 \<longrightarrow> row ! j = 0)"
proof (induction row)
  case Nil
  show ?case by simp
next
  case (Cons v vs)
  show ?case
  proof (cases "v = 0")
    case True
    have "list_all (\<lambda>w. w = 0) vs \<longleftrightarrow>
      (\<forall>j<length (v # vs). \<forall>i<j. (v # vs) ! i = 0 \<longrightarrow> (v # vs) ! j = 0)"
    proof
      assume z: "list_all (\<lambda>w. w = 0) vs"
      show "\<forall>j<length (v # vs). \<forall>i<j. (v # vs) ! i = 0 \<longrightarrow> (v # vs) ! j = 0"
      proof (intro allI impI)
        fix j i
        assume "j < length (v # vs)" and "i < j"
        then obtain j' where "j = Suc j'" and "j' < length vs"
          by (cases j) simp_all
        with z show "(v # vs) ! j = 0"
          by (simp add: list_all_length)
      qed
    next
      assume h: "\<forall>j<length (v # vs). \<forall>i<j. (v # vs) ! i = 0 \<longrightarrow> (v # vs) ! j = 0"
      show "list_all (\<lambda>w. w = 0) vs"
        unfolding list_all_length
      proof (intro allI impI)
        fix n
        assume "n < length vs"
        with h True have "(v # vs) ! Suc n = 0"
          by (metis length_Cons Suc_less_eq zero_less_Suc nth_Cons_0)
        then show "vs ! n = 0" by simp
      qed
    qed
    with True show ?thesis by simp
  next
    case False
    have "(\<forall>j<length vs. \<forall>i<j. vs ! i = 0 \<longrightarrow> vs ! j = 0) \<longleftrightarrow>
      (\<forall>j<length (v # vs). \<forall>i<j. (v # vs) ! i = 0 \<longrightarrow> (v # vs) ! j = 0)"
    proof
      assume h: "\<forall>j<length vs. \<forall>i<j. vs ! i = 0 \<longrightarrow> vs ! j = 0"
      show "\<forall>j<length (v # vs). \<forall>i<j. (v # vs) ! i = 0 \<longrightarrow> (v # vs) ! j = 0"
      proof (intro allI impI)
        fix j i
        assume j: "j < length (v # vs)" and i: "i < j" and z: "(v # vs) ! i = 0"
        from z False obtain i' where i': "i = Suc i'"
          by (cases i) simp_all
        with i obtain j' where j': "j = Suc j'"
          by (cases j) simp_all
        from h j i z i' j' show "(v # vs) ! j = 0"
          by simp
      qed
    next
      assume h: "\<forall>j<length (v # vs). \<forall>i<j. (v # vs) ! i = 0 \<longrightarrow> (v # vs) ! j = 0"
      show "\<forall>j<length vs. \<forall>i<j. vs ! i = 0 \<longrightarrow> vs ! j = 0"
      proof (intro allI impI)
        fix j i
        assume "j < length vs" and "i < j" and "vs ! i = 0"
        then have "Suc j < length (v # vs)" "Suc i < Suc j" "(v # vs) ! Suc i = 0"
          by simp_all
        with h have "(v # vs) ! Suc j = 0"
          by blast
        then show "vs ! j = 0" by simp
      qed
    qed
    with False Cons.IH show ?thesis by simp
  qed
qed

text \<open>
  C10: on a board of four rows of four cells every move packs the tiles against the edge
  moved toward. After a left move every row is packed (no zero to the left of a non-zero
  entry) and is a fixed point of \<open>compress\<close>; after a right move every row is packed
  when read from the right; after an up move every column is packed when read from the
  top, and after a down move when read from the bottom.
\<close>

theorem C10_moves_pack:
  assumes "is4x4 b"
  shows "(\<exists>res. resolve b ''left'' = Inr res \<and> is4x4 (newBoard res) \<and>
      (\<forall>row\<in>set (newBoard res). packed row \<and> compress row = row)) \<and>
    (\<exists>res. resolve b ''right'' = Inr res \<and> is4x4 (newBoard res) \<and>
      (\<forall>row\<in>set (newBoard res). packed (rev row))) \<and>
    (\<exists>res. resolve b ''up'' = Inr res \<and> is4x4 (newBoard res) \<and>
      (\<forall>c<BOARD_SIZE. packed (column (newBoard res) c))) \<and>
    (\<exists>res. resolve b ''down'' = Inr res \<and> is4x4 (newBoard res) \<and>
      (\<forall>c<BOARD_SIZE. packed (rev (column (newBoard res) c))))"
proof (intro conjI)
  from assms obtain m where m: "moveLeft b = Inr m" "is4x4 (newBoard m)"
    "\<forall>row\<in>set (newBoard m). compress row = row"
    by (rule moveLeft_4x4) blast
  have "\<forall>row\<in>set (newBoard m). packed row \<and> compress row = row"
    using m(3) packed_compress by metis
  with m show "\<exists>res. resolve b ''left'' = Inr res \<and> is4x4 (newBoard res) \<and>
      (\<forall>row\<in>set (newBoard res). packed row \<and> compress row = row)"
    by (intro exI [of _ m]) (simp add: resolve_def)
next
  from assms obtain m where m: "moveLeft (reverse b) = Inr m" "is4x4 (newBoard m)"
    "\<forall>row\<in>set (newBoard m). compress row = row"
    "moveRight b = Inr \<lparr>scoreDelta = scoreDelta m, newBoard = reverse (newBoard m)\<rparr>"
    by (rule moveRight_4x4) blast
  let ?res = "\<lparr>scoreDelta = scoreDelta m, newBoard = reverse (newBoard m)\<rparr>"
  have "\<forall>row\<in>set (newBoard m). packed row"
    using m(3) packed_compress by metis
  then have "\<forall>row\<in>set (newBoard ?res). packed (rev row)"
    by (simp add: reverse_def)
  moreover have "is4x4 (newBoard ?res)"
    using m(2) by (simp add: is4x4_reverse)
  moreover have "resolve b ''right'' = Inr ?res"
    using m(4) by (simp add: resolve_def)
  ultimately show "\<exists>res. resolve b ''right'' = Inr res \<and> is4x4 (newBoard res) \<and>
      (\<forall>row\<in>set (newBoard res). packed (rev row))"
    by (intro exI [of _ ?res] conjI)
next
  from assms obtain t and m :: move_result and bk where m: "is4x4 (newBoard m)"
    "\<forall>row\<in>set (newBoard m). compress row = row" "is4x4 bk"
    "map (column bk) [0..<BOARD_SIZE] = newBoard m"
    "moveUp b = Inr \<lparr>scoreDelta = scoreDelta m, newBoard = bk\<rparr>"
    by (rule moveUp_4x4) blast
  let ?res = "\<lparr>scoreDelta = scoreDelta m, newBoard = bk\<rparr>"
  have "\<forall>c<BOARD_SIZE. packed (column (newBoard ?res) c)"
  proof (intro allI impI)
    fix c
    assume c: "c < BOARD_SIZE"
    then have "column bk c = map (column bk) [0..<BOARD_SIZE] ! c"
      by simp
    also have "\<dots> = newBoard m ! c"
      by (simp only: m(4))
    finally have "column bk c = newBoard m ! c" .
    moreover have "newBoard m ! c \<in> set (newBoard m)"
      using c m(1) by (simp add: is4x4_def)
    ultimately have "packed (column bk c)"
      using m(2) packed_compress by metis
    then show "packed (column (newBoard ?res) c)"
      by simp
  qed
  moreover have "resolve b ''up'' = Inr ?res"
    using m(5) by (simp add: resolve_def)
  moreover have "is4x4 (newBoard ?res)"
    using m(3) by simp
  ultimately show "\<exists>res. resolve b ''up'' = Inr res \<and> is4x4 (newBoard res) \<and>
      (\<forall>c<BOARD_SIZE. packed (column (newBoard res) c))"
    by (intro exI [of _ ?res] conjI)
next
  from assms obtain t and m :: move_result and bk where m: "is4x4 (newBoard m)"
    "\<forall>row\<in>set (newBoard m). compress row = row" "is4x4 bk"
    "map (column bk) [0..<BOARD_SIZE] = reverse (newBoard m)"
    "moveDown b = Inr \<lparr>scoreDelta = scoreDelta m, newBoard = bk\<rparr>"
    by (rule moveDown_4x4) blast
  let ?res = "\<lparr>scoreDelta = scoreDelta m, newBoard = bk\<rparr>"
  have "\<forall>c<BOARD_SIZE. packed (rev (column (newBoard ?res) c))"
  proof (intro allI impI)
    fix c
    assume c: "c < BOARD_SIZE"
    then have "column bk c = map (column bk) [0..<BOARD_SIZE] ! c"
      by simp
    also have "\<dots> = reverse (newBoard m) ! c"
      by (simp only: m(4))
    also have "\<dots> = rev (newBoard m ! c)"
      using c m(1) by (simp add: reverse_def is4x4_def)
    finally have "rev (column bk c) = newBoard m ! c"
      by simp
    moreover have "newBoard m ! c \<in> set (newBoard m)"
      using c m(1) by (simp add: is4x4_def)
    ultimately have "packed (rev (column bk c))"
      using m(2) packed_compress by metis
    then show "packed (rev (column (newBoard ?res) c))"
      by simp
  qed
  moreover have "resolve b ''down'' = Inr ?res"
    using m(5) by (simp add: resolve_def)
  moreover have "is4x4 (newBoard ?res)"
    using m(3) by simp
  ultimately show "\<exists>res. resolve b ''down'' = Inr res \<and> is4x4 (newBoard res) \<and>
      (\<forall>c<BOARD_SIZE. packed (rev (column (newBoard res) c)))"
    by (intro exI [of _ ?res] conjI)
qed

theorem C10_moves_pack_witness:
  "is4x4 [[2, 0, 2, 4], [0, 4, 0, 4], [8, 0, 0, 0], [2, 2, 2, 2]] \<and>
   ((\<exists>res. resolve [[2, 0, 2, 4], [0, 4, 0, 4], [8, 0, 0, 0], [2, 2, 2, 2]] ''left'' = Inr res \<and>
      is4x4 (newBoard res) \<and>
      (\<forall>row\<in>set (newBoard res). packed row \<and> compress row = row)) \<and>
    (\<exists>res. resolve [[2, 0, 2, 4], [0, 4, 0, 4], [8, 0, 0, 0], [2, 2, 2, 2]] ''right'' = Inr res \<and>
      is4x4 (newBoard res) \<and>
      (\<forall>row\<in>set (newBoard res). packed (rev row))) \<and>
    (\<exists>res. resolve [[2, 0, 2, 4], [0, 4, 0, 4], [8, 0, 0, 0], [2, 2, 2, 2]] ''up'' = Inr res \<and>
      is4x4 (newBoard res) \<and>
      (\<forall>c<BOARD_SIZE. packed (column (newBoard res) c))) \<and>
    (\<exists>res. resolve [[2, 0, 2, 4], [0, 4, 0, 4], [8, 0, 0, 0], [2, 2, 2, 2]] ''down'' = Inr res \<and>
      is4x4 (newBoard res) \<and>
      (\<forall>c<BOARD_SIZE. packed (rev (column (newBoard res) c)))))"
proof -
  have h: "is4x4 [[2, 0, 2, 4], [0, 4, 0, 4], [8, 0, 0, 0], [2, 2, 2, 2]]"
    by (rule is4x4_explicit)
  from h C10_moves_pack [OF h] show ?thesis
    by (rule conjI)
qed

lemma moves_example:
  "resolve [[2, 0, 2, 4], [0, 4, 0, 4], [8, 0, 0, 0], [2, 2, 2, 2]] ''left'' =
     Inr \<lparr>scoreDelta = 20, newBoard = [[4, 4, 0, 0], [8, 0, 0, 0], [8, 0, 0, 0], [4, 4, 0, 0]]\<rparr>"
  "resolve [[2, 0, 2, 4], [0, 4, 0, 4], [8, 0, 0, 0], [2, 2, 2, 2]] ''right'' =
     Inr \<lparr>scoreDelta = 20, newBoard = [[0, 0, 4, 4], [0, 0, 0, 8], [0, 0, 0, 8], [0, 0, 4, 4]]\<rparr>"
  "resolve [[2, 0, 2, 4], [0, 4, 0, 4], [8, 0, 0, 0], [2, 2, 2, 2]] ''up'' =
     Inr \<lparr>scoreDelta = 12, newBoard = [[2, 4, 4, 8], [8, 2, 0, 2], [2, 0, 0, 0], [0, 0, 0, 0]]\<rparr>"
  "resolve [[2, 0, 2, 4], [0, 4, 0, 4], [8, 0, 0, 0], [2, 2, 2, 2]] ''down'' =
     Inr \<lparr>scoreDelta = 12, newBoard = [[0, 0, 0, 0], [2, 0, 0, 0], [8, 4, 0, 8], [2, 2, 4, 2]]\<rparr>"
  by code_simp+

section \<open>Boards without a legal move\<close>

lemma merge_loop_stuck:
  assumes "BOARD_SIZE \<le> length row"
    and "\<forall>i. Suc i < BOARD_SIZE \<longrightarrow> row ! i = 0 \<or> row ! i \<noteq> row ! Suc i"
  shows "merge_loop i row sd = Inr (row, sd)"
proof (induction "BOARD_SIZE - 1 - i" arbitrary: i)
  case 0
  then have "\<not> i < BOARD_SIZE - 1" by simp
  then show ?case
    by (simp add: merge_loop.simps [of i row sd])
next
  case (Suc n)
  then have i: "i < BOARD_SIZE - 1" and n: "n = BOARD_SIZE - 1 - (i + 1)"
    by simp_all
  from i assms(1) have here: "idx row i = Some (row ! i)"
    and there: "idx row (Suc i) = Some (row ! Suc i)"
    by (simp_all add: idx_def)
  from i assms(2) have "row ! i = 0 \<or> row ! i \<noteq> row ! Suc i"
    by simp
  then have "merge_loop i row sd = merge_loop (i + 1) row sd"
    using i by (auto simp add: merge_loop.simps [of i row sd] here there)
  with Suc.hyps(1) [OF n] show ?case
    by simp
qed

lemma merge_stuck:
  assumes "stuck row"
  shows "merge (compress row) = Inr \<lparr>scoreDelta = 0, mergedRow = row\<rparr>"
proof -
  from assms have len: "length row = BOARD_SIZE" and nz: "0 \<notin> set row"
    and adj: "distinct_adj row"
    by (simp_all add: stuck_def)
  have c: "compress row = row"
    using len nz by (rule compress_id)
  have "\<forall>i. Suc i < BOARD_SIZE \<longrightarrow> row ! i = 0 \<or> row ! i \<noteq> row ! Suc i"
    using adj len by (simp add: distinct_adj_conv_nth)
  then have "merge_loop 0 row 0 = Inr (row, 0)"
    using len by (intro merge_loop_stuck) simp_all
  then show ?thesis
    by (simp add: merge_def c)
qed

lemma moveLeft_rows_stuck:
  "\<forall>row\<in>set b. stuck row \<Longrightarrow> moveLeft_rows b sd = Inr (b, sd)"
  by (induction b arbitrary: sd) (simp_all add: merge_stuck)

lemma moveLeft_stuck:
  "\<forall>row\<in>set b. stuck row \<Longrightarrow> moveLeft b = Inr \<lparr>scoreDelta = 0, newBoard = b\<rparr>"
  by (simp add: moveLeft_def moveLeft_rows_stuck)

lemma stuck_rev: "stuck (rev row) = stuck row"
  by (simp add: stuck_def)

lemma moveRight_stuck:
  assumes "\<forall>row\<in>set b. stuck row"
  shows "moveRight b = Inr \<lparr>scoreDelta = 0, newBoard = b\<rparr>"
proof -
  have "\<forall>row\<in>set (reverse b). stuck row"
    using assms by (simp add: reverse_def stuck_rev)
  then have "moveLeft (reverse b) = Inr \<lparr>scoreDelta = 0, newBoard = reverse b\<rparr>"
    by (rule moveLeft_stuck)
  then show ?thesis
    by (simp add: moveRight_def reverse_reverse)
qed

lemma no_moves_explicit:
  assumes "hasMoves [[a0, a1, a2, a3], [b0, b1, b2, b3], [c0, c1, c2, c3], [d0, d1, d2, d3]] =
    Inr False"
  shows "stuck [a0, a1, a2, a3] \<and> stuck [b0, b1, b2, b3] \<and> stuck [c0, c1, c2, c3] \<and>
      stuck [d0, d1, d2, d3]"
    and "stuck [a0, b0, c0, d0] \<and> stuck [a1, b1, c1, d1] \<and> stuck [a2, b2, c2, d2] \<and>
      stuck [a3, b3, c3, d3]"
proof -
  let ?b = "[[a0, a1, a2, a3], [b0, b1, b2, b3], [c0, c1, c2, c3], [d0, d1, d2, d3]]"
  have "is4x4 ?b"
    by (rule is4x4_explicit)
  from hasMoves_4x4 [OF this] assms
  have n: "\<And>r c. r < BOARD_SIZE \<Longrightarrow> c < BOARD_SIZE \<Longrightarrow> \<not> offers_move ?b r c"
    by simp
  have r0: "a0 \<noteq> 0 \<and> a0 \<noteq> a1 \<and> a0 \<noteq> b0" "a1 \<noteq> 0 \<and> a1 \<noteq> a2 \<and> a1 \<noteq> b1"
    "a2 \<noteq> 0 \<and> a2 \<noteq> a3 \<and> a2 \<noteq> b2" "a3 \<noteq> 0 \<and> a3 \<noteq> b3"
    using n [of 0 0] n [of 0 1] n [of 0 2] n [of 0 3]
    by (simp_all add: offers_move_def BOARD_SIZE_def)
  have r1: "b0 \<noteq> 0 \<and> b0 \<noteq> b1 \<and> b0 \<noteq> c0" "b1 \<noteq> 0 \<and> b1 \<noteq> b2 \<and> b1 \<noteq> c1"
    "b2 \<noteq> 0 \<and> b2 \<noteq> b3 \<and> b2 \<noteq> c2" "b3 \<noteq> 0 \<and> b3 \<noteq> c3"
    using n [of 1 0] n [of 1 1] n [of 1 2] n [of 1 3]
    by (simp_all add: offers_move_def BOARD_SIZE_def)
  have r2: "c0 \<noteq> 0 \<and> c0 \<noteq> c1 \<and> c0 \<noteq> d0" "c1 \<noteq> 0 \<and> c1 \<noteq> c2 \<and> c1 \<noteq> d1"
    "c2 \<noteq> 0 \<and> c2 \<noteq> c3 \<and> c2 \<noteq> d2" "c3 \<noteq> 0 \<and> c3 \<noteq> d3"
    using n [of 2 0] n [of 2 1] n [of 2 2] n [of 2 3]
    by (simp_all add: offers_move_def BOARD_SIZE_def)
  have r3: "d0 \<noteq> 0 \<and> d0 \<noteq> d1" "d1 \<noteq> 0 \<and> d1 \<noteq> d2" "d2 \<noteq> 0 \<and> d2 \<noteq> d3" "d3 \<noteq> 0"
    using n [of 3 0] n [of 3 1] n [of 3 2] n [of 3 3]
    by (simp_all add: offers_move_def BOARD_SIZE_def)
  show "stuck [a0, a1, a2, a3] \<and> stuck [b0, b1, b2, b3] \<and> stuck [c0, c1, c2, c3] \<and>
      stuck [d0, d1, d2, d3]"
    using r0 r1 r2 r3 by (simp add: stuck_def BOARD_SIZE_def)
  show "stuck [a0, b0, c0, d0] \<and> stuck [a1, b1, c1, d1] \<and> stuck [a2, b2, c2, d2] \<and>
      stuck [a3, b3, c3, d3]"
    using r0 r1 r2 r3 by (simp add: stuck_def BOARD_SIZE_def)
qed

lemma no_moves_stuck:
  assumes "is4x4 b" and "hasMoves b = Inr False"
  obtains t where "transpose_board b = Inr t" and "transpose_board t = Inr b"
    and "\<forall>row\<in>set b. stuck row" and "\<forall>row\<in>set t. stuck row"
proof -
  obtain a0 a1 a2 a3 b0 b1 b2 b3 c0 c1 c2 c3 d0 d1 d2 d3 where
    b: "b = [[a0, a1, a2, a3], [b0, b1, b2, b3], [c0, c1, c2, c3], [d0, d1, d2, d3]]"
    using assms(1) by (rule is4x4_cases)
  let ?t = "[[a0, b0, c0, d0], [a1, b1, c1, d1], [a2, b2, c2, d2], [a3, b3, c3, d3]]"
  note s = no_moves_explicit [OF assms(2) [unfolded b]]
  have "transpose_board b = Inr ?t"
    unfolding b by (rule transpose_4x4_explicit)
  moreover have "transpose_board ?t = Inr b"
    unfolding b by (rule transpose_4x4_explicit)
  moreover have "\<forall>row\<in>set b. stuck row"
    unfolding b using s(1) by simp
  moreover have "\<forall>row\<in>set ?t. stuck row"
    using s(2) by simp
  ultimately show ?thesis
    by (rule that)
qed

text \<open>
  C4: on a board of four rows of four cells for which \<open>hasMoves\<close> returns false, the
  move in each of the four directions returns the board itself with score 0.
\<close>

theorem C4_no_moves_fixed:
  assumes "is4x4 b" and "hasMoves b = Inr False"
    and "direction \<in> {''up'', ''down'', ''left'', ''right''}"
  shows "resolve b direction = Inr \<lparr>scoreDelta = 0, newBoard = b\<rparr>"
proof -
  from assms(1,2) obtain t where t: "transpose_board b = Inr t" "transpose_board t = Inr b"
    "\<forall>row\<in>set b. stuck row" "\<forall>row\<in>set t. stuck row"
    by (rule no_moves_stuck)
  have left: "moveLeft b = Inr \<lparr>scoreDelta = 0, newBoard = b\<rparr>"
    using t(3) by (rule moveLeft_stuck)
  have right: "moveRight b = Inr \<lparr>scoreDelta = 0, newBoard = b\<rparr>"
    using t(3) by (rule moveRight_stuck)
  have "moveLeft t = Inr \<lparr>scoreDelta = 0, newBoard = t\<rparr>"
    using t(4) by (rule moveLeft_stuck)
  then have up: "moveUp b = Inr \<lparr>scoreDelta = 0, newBoard = b\<rparr>"
    using t(1,2) by (simp add: moveUp_def)
  have "moveRight t = Inr \<lparr>scoreDelta = 0, newBoard = t\<rparr>"
    using t(4) by (rule moveRight_stuck)
  then have down: "moveDown b = Inr \<lparr>scoreDelta = 0, newBoard = b\<rparr>"
    using t(1,2) by (simp add: moveDown_def)
  from assms(3) left right up down show ?thesis
    by (auto simp: resolve_def)
qed

theorem C4_no_moves_fixed_witness:
  "is4x4 [[2, 4, 2, 4], [4, 2, 4, 2], [2, 4, 2, 4], [4, 2, 4, 2]] \<and>
   hasMoves [[2, 4, 2, 4], [4, 2, 4, 2], [2, 4, 2, 4], [4, 2, 4, 2]] = Inr False \<and>
   ''down'' \<in> {''up'', ''down'', ''left'', ''right''} \<and>
   resolve [[2, 4, 2, 4], [4, 2, 4, 2], [2, 4, 2, 4], [4, 2, 4, 2]] ''down'' =
     Inr \<lparr>scoreDelta = 0, newBoard = [[2, 4, 2, 4], [4, 2, 4, 2], [2, 4, 2, 4], [4, 2, 4, 2]]\<rparr>"
proof -
  have h: "is4x4 [[2, 4, 2, 4], [4, 2, 4, 2], [2, 4, 2, 4], [4, 2, 4, 2]]"
    by (rule is4x4_explicit)
  have n: "hasMoves [[2, 4, 2, 4], [4, 2, 4, 2], [2, 4, 2, 4], [4, 2, 4, 2]] = Inr False"
    by code_simp
  have d: "''down'' \<in> {''up'', ''down'', ''left'', ''right''}"
    by simp
  from h n d C4_no_moves_fixed [OF h n d] show ?thesis
    by (intro conjI)
qed

end
